theory Spec2Isabelle
  imports Complex_Main "HOL-Library.Word" "HOL-Library.Signed_Division" "HOL-Library.Sublist"
begin

section \<open>Signal alphabet (internal/utils/signals.go)\<close>

text \<open>
  The Go source declares the signals in one \<^verbatim>\<open>const\<close> block of type \<^verbatim>\<open>byte\<close>
  whose first entry is \<^verbatim>\<open>iota\<close>: every name gets the index of its line in the block.
  The block is kept as a list in declaration order and the wire value of a name is its
  position in that list, read as a byte.
\<close>

type_synonym byte = "8 word"
type_synonym int32 = "32 word"

datatype signal = SG_HB | SG_Chan | SG_Ping | SG_Closed | SG_TCP | SG_UDP

definition const_block :: "signal list" where
  "const_block = [SG_HB, SG_Chan, SG_Ping, SG_Closed, SG_TCP, SG_UDP]"

fun iota_of :: "signal list \<Rightarrow> signal \<Rightarrow> nat" where
  "iota_of [] s = 0"
| "iota_of (x # xs) s = (if x = s then 0 else Suc (iota_of xs s))"

definition sg :: "signal \<Rightarrow> byte" where
  "sg s = of_nat (iota_of const_block s)"

section \<open>Go channels\<close>

text \<open>
  A channel of the Go runtime: a buffer of at most \<open>cap\<close> values, the values of the
  senders parked on it (a blocking send that found neither a waiting receiver nor room),
  and the number of receivers parked on it. \<^verbatim>\<open>make(chan T)\<close> is capacity 0,
  \<^verbatim>\<open>make(chan T, n)\<close> is capacity \<open>n\<close>.
\<close>

record 'a chan =
  cap :: nat
  buf :: "'a list"
  sendq :: "'a list"
  recvq :: nat

definition make_chan :: "nat \<Rightarrow> 'a chan" where
  "make_chan n = \<lparr>cap = n, buf = [], sendq = [], recvq = 0\<rparr>"

datatype send_outcome = Handed | Buffered | WouldBlock

text \<open>
  A send first looks for a parked receiver, then for room in the buffer. The non-blocking
  form (\<^verbatim>\<open>select { case ch <- v: ... default: ... }\<close>) takes the default branch
  otherwise; the blocking form (\<^verbatim>\<open>ch <- v\<close>) parks the sender.
\<close>

definition try_send :: "'a \<Rightarrow> 'a chan \<Rightarrow> send_outcome \<times> 'a chan" where
  "try_send v ch =
     (if 0 < recvq ch then (Handed, ch\<lparr>recvq := recvq ch - 1\<rparr>)
      else if length (buf ch) < cap ch then (Buffered, ch\<lparr>buf := buf ch @ [v]\<rparr>)
      else (WouldBlock, ch))"

definition blocking_send :: "'a \<Rightarrow> 'a chan \<Rightarrow> send_outcome \<times> 'a chan" where
  "blocking_send v ch =
     (case try_send v ch of
        (WouldBlock, _) \<Rightarrow> (WouldBlock, ch\<lparr>sendq := sendq ch @ [v]\<rparr>)
      | r \<Rightarrow> r)"

text \<open>
  A non-blocking receive (\<^verbatim>\<open>select { case <-ch: ... default: ... }\<close>) takes the head
  of the buffer, refilling the buffer from the first parked sender, or, on an empty
  buffer, the value of the first parked sender; with neither it takes the default branch.
  A receive that is one case of a \<^verbatim>\<open>select\<close> without default can be taken exactly
  when the non-blocking receive finds a value.
\<close>

definition try_recv :: "'a chan \<Rightarrow> 'a option \<times> 'a chan" where
  "try_recv ch =
     (case buf ch of
        x # xs \<Rightarrow> (Some x, ch\<lparr>buf := xs @ take 1 (sendq ch), sendq := drop 1 (sendq ch)\<rparr>)
      | [] \<Rightarrow> (case sendq ch of
                 v # vs \<Rightarrow> (Some v, ch\<lparr>sendq := vs\<rparr>)
               | [] \<Rightarrow> (None, ch)))"

definition chan_full :: "'a chan \<Rightarrow> bool" where
  "chan_full ch = (recvq ch = 0 \<and> cap ch \<le> length (buf ch))"

section \<open>What the goroutines do to the outside\<close>

text \<open>
  The effects a step leaves behind, in program order: goroutines started with
  \<^verbatim>\<open>go\<close>, calls on contexts, connections and sessions, writes of one signal byte on
  the control channel, sleeps, and logger calls by level (the message text is not kept).
  The numbers name contexts, connections and streams; a copier is listed with its two
  ends in the order of the call. An effect that blocks (a sleep, the send on
  \<^verbatim>\<open>next\<close>, a receive from \<^verbatim>\<open>done\<close>) stands where the program performs it: what
  follows it in the list happens only after it has returned.
\<close>

datatype level = Trace | Debug | Info | Warn | Error

datatype action =
    Log level
  | TryLock_ok
  | Unlock
  | Cancel nat
  | WithCancel_parent nat
  | Close_conn nat
  | Sleep_seconds nat
  | Go_Start
  | Go_Restart
  | Go_tunnelDialer
  | Go_copier nat nat
  | Write_byte byte
  | Notify_next
  | Await_done
  | Close_session

text \<open>
  A goroutine, or several of them on shared state, is given by what one event does to
  the state; \<open>None\<close> says that the event cannot happen in that state. A run applies a
  list of events in order and collects the effects; it has a result only if every event
  could happen when its turn came.
\<close>

fun run :: "('e \<Rightarrow> 's \<Rightarrow> ('s \<times> action list) option) \<Rightarrow> 'e list \<Rightarrow> 's \<times> action list
            \<Rightarrow> ('s \<times> action list) option" where
  "run step [] sa = Some sa"
| "run step (e # es) (s, acts) =
     (case step e s of
        None \<Rightarrow> None
      | Some (s', new) \<Rightarrow> run step es (s', acts @ new))"

section \<open>Supervisor fields common to both peers\<close>

text \<open>
  The client's and the servers' transport structs share the fields of the lifecycle:
  the parent context, the current context with its cancel function, the control channel
  connection, the usage monitor, the restart mutex, and \<^verbatim>\<open>config.TunnelStatus\<close>.
  A context is a generation number with its cancelled flag; \<open>cancel_set\<close> says that the
  \<^verbatim>\<open>cancel\<close> field is not nil; the usage monitor is named by the context it was
  built for; a connection is named by a number, \<open>None\<close> is nil.
\<close>

record supervisor =
  TunnelStatus :: string
  parentctx_done :: bool
  ctx_gen :: nat
  ctx_done :: bool
  cancel_set :: bool
  controlChannel :: "nat option"
  usageMonitor :: nat
  restartMutex :: bool

section \<open>Client (internal/client/transport/tcp.go)\<close>

text \<open>
  \<^verbatim>\<open>TcpTransport\<close> of the client with \<^verbatim>\<open>config.ConnPoolSize\<close>.
  \<^verbatim>\<open>ConnPoolSize\<close> and the sizer's \<^verbatim>\<open>newPoolSize\<close> are Go \<^verbatim>\<open>int\<close>s that
  change by one per 60-second window at most, and are kept as integers; the two
  \<^verbatim>\<open>int32\<close> counters are 32-bit words, read signed.
\<close>

record client = supervisor +
  ConnPoolSize :: int
  poolConnections :: int32
  loadConnections :: int32
  controlFlow :: "unit chan"

definition NewTCPClient :: "bool \<Rightarrow> int \<Rightarrow> client" where
  "NewTCPClient parent_done pool_size =
     \<lparr>TunnelStatus = [], parentctx_done = parent_done,
      ctx_gen = 0, ctx_done = parent_done, cancel_set = True, controlChannel = None,
      usageMonitor = 0, restartMutex = False,
      ConnPoolSize = pool_size, poolConnections = 0, loadConnections = 0,
      controlFlow = make_chan 0\<rparr>"

text \<open>
  \<^verbatim>\<open>Restart\<close>. A failed \<^verbatim>\<open>TryLock\<close> logs a warning and returns. Otherwise, with the
  mutex held until the deferred unlock: cancel, sleep two seconds, derive a new context
  from the parent, reset the fields, start \<^verbatim>\<open>Start\<close> in a goroutine.
\<close>

definition client_Restart :: "client \<Rightarrow> client \<times> action list" where
  "client_Restart c =
     (if restartMutex c then (c, [Log Warn])
      else
        let c1 = c\<lparr>restartMutex := True\<rparr>;
            a1 = [TryLock_ok, Log Info];
            c2 = (if cancel_set c1 then c1\<lparr>ctx_done := True\<rparr> else c1);
            a2 = (if cancel_set c1 then [Cancel (ctx_gen c1)] else []);
            a3 = [Sleep_seconds 2];
            c4 = c2\<lparr>ctx_gen := Suc (ctx_gen c2), ctx_done := parentctx_done c2,
                    cancel_set := True\<rparr>;
            a4 = [WithCancel_parent (ctx_gen c4)];
            c5 = c4\<lparr>controlChannel := None, usageMonitor := ctx_gen c4,
                    TunnelStatus := [], poolConnections := 0, loadConnections := 0,
                    controlFlow := make_chan 0\<rparr>;
            a5 = [Go_Start]
        in (c5\<lparr>restartMutex := False\<rparr>, a1 @ a2 @ a3 @ a4 @ a5 @ [Unlock]))"

subsection \<open>poolMaintainer and channelHandler over one established control channel\<close>

text \<open>
  The state of one established lifetime: the transport, the locals of
  \<^verbatim>\<open>poolMaintainer\<close> with the place where that goroutine stands (in its \<^verbatim>\<open>select\<close>,
  parked in the send on \<^verbatim>\<open>controlFlow\<close>, or returned), and whether the consumer loop
  of \<^verbatim>\<open>channelHandler\<close> still runs.
\<close>

datatype pm_pc = PM_select | PM_send | PM_returned

record world =
  tr :: client
  newPoolSize :: int
  poolConnectionsSum :: int32
  pc :: pm_pc
  handler_running :: bool

text \<open>
  When the token came back on connection \<open>k\<close>, \<^verbatim>\<open>channelDialer\<close> stores the
  connection, sets the status and starts both goroutines; the first thing
  \<^verbatim>\<open>poolMaintainer\<close> does is to start \<^verbatim>\<open>ConnPoolSize\<close> dialers and to set its
  locals.
\<close>

definition established :: "client \<Rightarrow> nat \<Rightarrow> world \<times> action list" where
  "established c k =
     (\<lparr>tr = c\<lparr>controlChannel := Some k, TunnelStatus := ''Connected (TCP)''\<rparr>,
       newPoolSize = ConnPoolSize c, poolConnectionsSum = 0, pc = PM_select,
       handler_running = True\<rparr>,
      Log Info # replicate (nat (ConnPoolSize c)) Go_tunnelDialer)"

text \<open>The 1-second ticker: add the current \<^verbatim>\<open>poolConnections\<close> to the sum.\<close>

definition tickerPool :: "world \<Rightarrow> world \<times> action list" where
  "tickerPool w = (w\<lparr>poolConnectionsSum := poolConnectionsSum w + poolConnections (tr w)\<rparr>, [])"

text \<open>
  The 60-second ticker. The counters are converted from \<^verbatim>\<open>int32\<close> to \<^verbatim>\<open>int\<close>
  before 59 is added, so the sums do not wrap (an \<^verbatim>\<open>int\<close> of 64 bits); Go's
  \<^verbatim>\<open>/\<close> on \<^verbatim>\<open>int\<close> truncates towards zero (\<open>sdiv\<close>). The send on
  \<^verbatim>\<open>controlFlow\<close> is a blocking send: when it cannot complete, the goroutine stays
  parked in it.
\<close>

definition tickerLoad :: "world \<Rightarrow> world \<times> action list" where
  "tickerLoad w =
     (let loadAvg = (sint (loadConnections (tr w)) + 59) sdiv 60;
          w1 = w\<lparr>tr := (tr w)\<lparr>loadConnections := 0\<rparr>\<rparr>;
          poolConnectionsAvg = (sint (poolConnectionsSum w1) + 59) sdiv 60;
          w2 = w1\<lparr>poolConnectionsSum := 0\<rparr>
      in if (loadAvg + 4) sdiv 5 > poolConnectionsAvg
         then (w2\<lparr>newPoolSize := newPoolSize w2 + 1\<rparr>, [Log Info, Go_tunnelDialer])
         else if (loadAvg + 3) sdiv 4 < poolConnectionsAvg \<and> newPoolSize w2 > ConnPoolSize (tr w2)
         then
           (let w3 = w2\<lparr>newPoolSize := newPoolSize w2 - 1\<rparr>;
                (r, ch) = blocking_send () (controlFlow (tr w3))
            in (w3\<lparr>tr := (tr w3)\<lparr>controlFlow := ch\<rparr>,
                    pc := (if r = WouldBlock then PM_send else PM_select)\<rparr>, [Log Info]))
         else (w2, []))"

text \<open>
  The consumer's \<^verbatim>\<open>switch\<close> on a byte taken from \<^verbatim>\<open>msgChan\<close>. On
  \<^verbatim>\<open>SG_Chan\<close> the load counter goes up by one and a non-blocking receive on
  \<^verbatim>\<open>controlFlow\<close> decides whether a dialer is started; a receive that takes the value
  of the parked sizer lets the sizer go on.
\<close>

definition on_msg :: "byte \<Rightarrow> world \<Rightarrow> world \<times> action list" where
  "on_msg msg w =
     (if msg = sg SG_Chan then
        (let w1 = w\<lparr>tr := (tr w)\<lparr>loadConnections := loadConnections (tr w) + 1\<rparr>\<rparr>;
             (got, ch) = try_recv (controlFlow (tr w1))
         in case got of
              Some _ \<Rightarrow>
                (w1\<lparr>tr := (tr w1)\<lparr>controlFlow := ch\<rparr>,
                     pc := (if pc w1 = PM_send \<and> sendq ch = [] then PM_select else pc w1)\<rparr>, [])
            | None \<Rightarrow> (w1, [Log Debug, Go_tunnelDialer]))
      else if msg = sg SG_HB then (w, [Log Debug])
      else if msg = sg SG_Closed then (w\<lparr>handler_running := False\<rparr>, [Log Info, Go_Restart])
      else (w\<lparr>handler_running := False\<rparr>, [Log Error, Go_Restart]))"

text \<open>
  What can happen next in the lifetime: the cases of the two \<^verbatim>\<open>select\<close> statements,
  a read error handed over on \<^verbatim>\<open>errChan\<close>, the atomic increments and decrements of
  \<^verbatim>\<open>poolConnections\<close> by the dialers, and the cancellation of the context. A case
  that the goroutine cannot take where it stands gives \<open>None\<close>.
\<close>

datatype client_event =
    PM_ctxDone | PM_tickerPool | PM_tickerLoad
  | H_ctxDone | H_msg byte | H_err
  | Dialer_add | Dialer_sub | Ctx_cancelled

fun client_step :: "client_event \<Rightarrow> world \<Rightarrow> (world \<times> action list) option" where
  "client_step PM_ctxDone w =
     (if pc w = PM_select \<and> ctx_done (tr w) then Some (w\<lparr>pc := PM_returned\<rparr>, []) else None)"
| "client_step PM_tickerPool w = (if pc w = PM_select then Some (tickerPool w) else None)"
| "client_step PM_tickerLoad w = (if pc w = PM_select then Some (tickerLoad w) else None)"
| "client_step H_ctxDone w =
     (if handler_running w \<and> ctx_done (tr w)
      then Some (w\<lparr>handler_running := False\<rparr>, [Write_byte (sg SG_Closed)]) else None)"
| "client_step (H_msg b) w = (if handler_running w then Some (on_msg b w) else None)"
| "client_step H_err w =
     (if handler_running w then Some (w\<lparr>handler_running := False\<rparr>, [Log Error, Go_Restart])
      else None)"
| "client_step Dialer_add w =
     Some (w\<lparr>tr := (tr w)\<lparr>poolConnections := poolConnections (tr w) + 1\<rparr>\<rparr>, [])"
| "client_step Dialer_sub w =
     Some (w\<lparr>tr := (tr w)\<lparr>poolConnections := poolConnections (tr w) - 1\<rparr>\<rparr>, [])"
| "client_step Ctx_cancelled w = Some (w\<lparr>tr := (tr w)\<lparr>ctx_done := True\<rparr>\<rparr>, [])"

section \<open>Servers (TCP, multiplexed TCP, multiplexed websocket)\<close>

text \<open>
  The three server transports keep the same queues: tunnel connections (or mux sessions)
  waiting to be paired, parked user connections, and the tokens asking the client for a
  new tunnel connection. \<^verbatim>\<open>ChannelSize\<close> and \<^verbatim>\<open>MuxCon\<close> are fields of the
  config; \<^verbatim>\<open>MuxCon\<close> is read by the mux transports only.
\<close>

record LocalTCPConn =
  conn :: nat
  remoteAddr :: string

record server = supervisor +
  ChannelSize :: int
  MuxCon :: int
  tunnelChannel :: "nat chan"
  localChannel :: "LocalTCPConn chan"
  reqNewConnChan :: "unit chan"

text \<open>
  \<^verbatim>\<open>make(chan T, n)\<close> panics on a negative \<open>n\<close>, so a constructor has no result
  for a negative \<^verbatim>\<open>ChannelSize\<close>. The TCP server has no \<^verbatim>\<open>MuxCon\<close>; its field
  is 0 and never read.
\<close>

definition NewTCPServer :: "bool \<Rightarrow> int \<Rightarrow> server option" where
  "NewTCPServer parent_done channel_size =
     (if channel_size < 0 then None
      else Some \<lparr>TunnelStatus = [], parentctx_done = parent_done,
        ctx_gen = 0, ctx_done = parent_done, cancel_set = True, controlChannel = None,
        usageMonitor = 0, restartMutex = False,
        ChannelSize = channel_size, MuxCon = 0,
        tunnelChannel = make_chan (nat channel_size),
        localChannel = make_chan (nat channel_size),
        reqNewConnChan = make_chan (nat channel_size)\<rparr>)"

definition NewTcpMuxServer :: "bool \<Rightarrow> int \<Rightarrow> int \<Rightarrow> server option" where
  "NewTcpMuxServer parent_done channel_size mux_con =
     (if channel_size < 0 then None
      else Some \<lparr>TunnelStatus = [], parentctx_done = parent_done,
        ctx_gen = 0, ctx_done = parent_done, cancel_set = True, controlChannel = None,
        usageMonitor = 0, restartMutex = False,
        ChannelSize = channel_size, MuxCon = mux_con,
        tunnelChannel = make_chan (nat channel_size),
        localChannel = make_chan (nat channel_size),
        reqNewConnChan = make_chan (nat channel_size)\<rparr>)"

text \<open>
  \<^verbatim>\<open>Restart\<close> of the TCP server: as on the client, with the control channel closed
  (when it is not nil) between the cancel and the sleep, and the three queues made anew.
\<close>

definition server_Restart :: "server \<Rightarrow> server \<times> action list" where
  "server_Restart s =
     (if restartMutex s then (s, [Log Warn])
      else
        let s1 = s\<lparr>restartMutex := True\<rparr>;
            a1 = [TryLock_ok, Log Info];
            s2 = (if cancel_set s1 then s1\<lparr>ctx_done := True\<rparr> else s1);
            a2 = (if cancel_set s1 then [Cancel (ctx_gen s1)] else []);
            a3 = (case controlChannel s2 of None \<Rightarrow> [] | Some k \<Rightarrow> [Close_conn k]);
            a4 = [Sleep_seconds 2];
            s5 = s2\<lparr>ctx_gen := Suc (ctx_gen s2), ctx_done := parentctx_done s2,
                    cancel_set := True\<rparr>;
            a5 = [WithCancel_parent (ctx_gen s5)];
            s6 = s5\<lparr>tunnelChannel := make_chan (nat (ChannelSize s5)),
                    localChannel := make_chan (nat (ChannelSize s5)),
                    reqNewConnChan := make_chan (nat (ChannelSize s5)),
                    usageMonitor := ctx_gen s5, TunnelStatus := [], controlChannel := None\<rparr>;
            a6 = [Go_Start]
        in (s6\<lparr>restartMutex := False\<rparr>, a1 @ a2 @ a3 @ a4 @ a5 @ a6 @ [Unlock]))"

text \<open>
  \<^verbatim>\<open>Start\<close> goes on only when \<^verbatim>\<open>channelHandshake\<close> has stored a connection
  \<open>k\<close> as the control channel; it then sets the status and starts the port listeners,
  \<^verbatim>\<open>channelHandler\<close> and the \<^verbatim>\<open>handleLoop\<close> workers.
\<close>

definition tcp_connected :: "server \<Rightarrow> nat \<Rightarrow> server" where
  "tcp_connected s k = s\<lparr>controlChannel := Some k, TunnelStatus := ''Connected (TCP)''\<rparr>"

definition tcpmux_connected :: "server \<Rightarrow> nat \<Rightarrow> server" where
  "tcpmux_connected s k = s\<lparr>controlChannel := Some k, TunnelStatus := ''Connected (TCPMux)''\<rparr>"

subsection \<open>channelHandler of the servers\<close>

text \<open>
  The handler starts one goroutine that calls \<^verbatim>\<open>ReceiveBinaryByte\<close> once and sends
  the pair of byte and error on the unbuffered \<^verbatim>\<open>resultChan\<close>; there is no loop in
  that goroutine. \<open>wire\<close> is what successive reads of the control channel would return,
  in order; \<open>seen\<close> collects what the consumer loop took from \<^verbatim>\<open>resultChan\<close>.
\<close>

datatype read_result = Got byte | Read_failed

datatype reader = Reading | Delivering read_result | Finished

record serving =
  srv :: server
  wire :: "read_result list"
  reader :: reader
  running :: bool
  seen :: "read_result list"

definition channelHandler_start :: "server \<Rightarrow> read_result list \<Rightarrow> serving" where
  "channelHandler_start s rs =
     \<lparr>srv = s, wire = rs, reader = Reading, running = True, seen = []\<rparr>"

text \<open>The body of \<^verbatim>\<open>case result := <-resultChan\<close>.\<close>

definition on_result :: "read_result \<Rightarrow> serving \<Rightarrow> serving \<times> action list" where
  "on_result r v =
     (case r of
        Read_failed \<Rightarrow> (v\<lparr>running := False\<rparr>, [Log Error, Go_Restart])
      | Got message \<Rightarrow>
          if message = sg SG_Closed then (v\<lparr>running := False\<rparr>, [Log Info, Go_Restart])
          else (v, []))"

text \<open>
  The events: the reader goroutine's read returns; the cases of the consumer's
  \<^verbatim>\<open>select\<close> (the two writes carry whether \<^verbatim>\<open>SendBinaryByte\<close> succeeded); the
  cancellation of the context.
\<close>

datatype server_event =
    R_read | S_ctxDone | S_reqNewConn bool | S_ticker bool | S_result | S_cancelled

fun server_step :: "server_event \<Rightarrow> serving \<Rightarrow> (serving \<times> action list) option" where
  "server_step R_read v =
     (case (reader v, wire v) of
        (Reading, r # rs) \<Rightarrow> Some (v\<lparr>reader := Delivering r, wire := rs\<rparr>, [])
      | _ \<Rightarrow> None)"
| "server_step S_ctxDone v =
     (if running v \<and> ctx_done (srv v)
      then Some (v\<lparr>running := False\<rparr>, [Write_byte (sg SG_Closed)]) else None)"
| "server_step (S_reqNewConn ok) v =
     (if running v then
        (case try_recv (reqNewConnChan (srv v)) of
           (None, _) \<Rightarrow> None
         | (Some _, ch) \<Rightarrow>
             let v1 = v\<lparr>srv := (srv v)\<lparr>reqNewConnChan := ch\<rparr>\<rparr>
             in if ok then Some (v1, [Write_byte (sg SG_Chan)])
                else Some (v1\<lparr>running := False\<rparr>, [Log Error, Go_Restart]))
      else None)"
| "server_step (S_ticker ok) v =
     (if running v then
        (if ok then Some (v, [Write_byte (sg SG_HB), Log Trace])
         else Some (v\<lparr>running := False\<rparr>, [Log Error, Go_Restart]))
      else None)"
| "server_step S_result v =
     (case (running v, reader v) of
        (True, Delivering r) \<Rightarrow> Some (on_result r (v\<lparr>reader := Finished, seen := seen v @ [r]\<rparr>))
      | _ \<Rightarrow> None)"
| "server_step S_cancelled v = Some (v\<lparr>srv := (srv v)\<lparr>ctx_done := True\<rparr>\<rparr>, [])"

subsection \<open>acceptLocalConn\<close>

text \<open>
  One turn of the accept loop after \<^verbatim>\<open>listener.Accept\<close> returned a connection
  without error: \<open>is_tcp\<close> is the outcome of the type assertion to \<^verbatim>\<open>*net.TCPConn\<close>.
  The socket option \<^verbatim>\<open>SetNoDelay\<close> touches neither queue and is left out.
  The TCP server offers a token on \<^verbatim>\<open>reqNewConnChan\<close> after a successful enqueue;
  the two mux servers do not.
\<close>

definition tcp_acceptLocalConn :: "nat \<Rightarrow> bool \<Rightarrow> string \<Rightarrow> server \<Rightarrow> server \<times> action list" where
  "tcp_acceptLocalConn c is_tcp addr s =
     (if \<not> is_tcp then (s, [Log Warn, Close_conn c])
      else
        case try_send \<lparr>conn = c, remoteAddr = addr\<rparr> (localChannel s) of
          (WouldBlock, _) \<Rightarrow> (s, [Log Warn, Close_conn c])
        | (_, lq) \<Rightarrow>
            let s1 = s\<lparr>localChannel := lq\<rparr>
            in case try_send () (reqNewConnChan s1) of
                 (WouldBlock, _) \<Rightarrow> (s1, [Log Warn, Log Debug])
               | (_, rq) \<Rightarrow> (s1\<lparr>reqNewConnChan := rq\<rparr>, [Log Debug]))"

definition tcpmux_acceptLocalConn :: "nat \<Rightarrow> bool \<Rightarrow> string \<Rightarrow> server \<Rightarrow> server \<times> action list" where
  "tcpmux_acceptLocalConn c is_tcp addr s =
     (if \<not> is_tcp then (s, [Log Warn, Close_conn c])
      else
        case try_send \<lparr>conn = c, remoteAddr = addr\<rparr> (localChannel s) of
          (WouldBlock, _) \<Rightarrow> (s, [Log Warn, Close_conn c])
        | (_, lq) \<Rightarrow> (s\<lparr>localChannel := lq\<rparr>, [Log Debug]))"

definition wsmux_acceptLocalConn :: "nat \<Rightarrow> bool \<Rightarrow> string \<Rightarrow> server \<Rightarrow> server \<times> action list" where
  "wsmux_acceptLocalConn c is_tcp addr s =
     (if \<not> is_tcp then (s, [Log Warn, Close_conn c])
      else
        case try_send \<lparr>conn = c, remoteAddr = addr\<rparr> (localChannel s) of
          (WouldBlock, _) \<Rightarrow> (s, [Log Warn, Close_conn c])
        | (_, lq) \<Rightarrow> (s\<lparr>localChannel := lq\<rparr>, [Log Debug]))"

subsection \<open>handleLoop of the TCP server\<close>

text \<open>
  A pairing worker stands either in the outer \<^verbatim>\<open>select\<close> (nothing parked) or in the
  inner loop with the user connection it took from \<^verbatim>\<open>localChannel\<close>. The event of a
  tunnel connection carries whether \<^verbatim>\<open>SendBinaryTransportString\<close> succeeded on it.
\<close>

record pairing =
  psrv :: server
  parked :: "LocalTCPConn option"
  returned :: bool

datatype hl_event = HL_ctxDone | HL_local | HL_tunnel bool | HL_cancelled

fun handleLoop_step :: "hl_event \<Rightarrow> pairing \<Rightarrow> (pairing \<times> action list) option" where
  "handleLoop_step HL_ctxDone p =
     (if \<not> returned p \<and> ctx_done (psrv p) then Some (p\<lparr>returned := True\<rparr>, []) else None)"
| "handleLoop_step HL_local p =
     (if \<not> returned p \<and> parked p = None then
        (case try_recv (localChannel (psrv p)) of
           (None, _) \<Rightarrow> None
         | (Some localConn, lq) \<Rightarrow>
             Some (p\<lparr>psrv := (psrv p)\<lparr>localChannel := lq\<rparr>, parked := Some localConn\<rparr>, []))
      else None)"
| "handleLoop_step (HL_tunnel ok) p =
     (if returned p then None
      else case parked p of
        None \<Rightarrow> None
      | Some localConn \<Rightarrow>
          (case try_recv (tunnelChannel (psrv p)) of
             (None, _) \<Rightarrow> None
           | (Some tunnelConn, tq) \<Rightarrow>
               let p1 = p\<lparr>psrv := (psrv p)\<lparr>tunnelChannel := tq\<rparr>\<rparr>
               in if \<not> ok then Some (p1, [Log Error, Close_conn tunnelConn])
                  else Some (p1\<lparr>parked := None\<rparr>, [Go_copier (conn localConn) tunnelConn])))"
| "handleLoop_step HL_cancelled p = Some (p\<lparr>psrv := (psrv p)\<lparr>ctx_done := True\<rparr>\<rparr>, [])"

subsection \<open>handleSession of the multiplexed TCP server\<close>

text \<open>
  The locals of \<^verbatim>\<open>handleSession\<close>: \<^verbatim>\<open>counter\<close>, and how the call stands.
  \<open>opened\<close> counts the calls of \<^verbatim>\<open>session.OpenStream\<close> that returned a stream; the
  source keeps no such variable. The event of a user connection carries whether
  \<^verbatim>\<open>OpenStream\<close> and then \<^verbatim>\<open>SendBinaryString\<close> succeeded.
\<close>

datatype sess_status = Serving | Cancelled | Broken | Stuck | Retired

record session =
  ssrv :: server
  counter :: int
  opened :: nat
  status :: sess_status

datatype sess_event = Sess_ctxDone | Sess_incoming bool bool | Sess_cancelled

text \<open>
  The first statement makes \<^verbatim>\<open>done\<close> with capacity \<^verbatim>\<open>MuxCon\<close>, which panics
  on a negative \<^verbatim>\<open>MuxCon\<close>.
\<close>

definition handleSession_start :: "server \<Rightarrow> session option" where
  "handleSession_start s =
     (if MuxCon s < 0 then None
      else Some \<lparr>ssrv = s, counter = 0, opened = 0, status = Serving\<rparr>)"

text \<open>
  \<^verbatim>\<open>finalizeSession\<close>: let \<^verbatim>\<open>handleLoop\<close> go on, offer one token on
  \<^verbatim>\<open>reqNewConnChan\<close> without blocking, receive \<^verbatim>\<open>counter\<close> times from
  \<^verbatim>\<open>done\<close>, close the session.
\<close>

definition finalizeSession :: "server \<Rightarrow> int \<Rightarrow> server \<times> action list" where
  "finalizeSession s n =
     (case try_send () (reqNewConnChan s) of
        (WouldBlock, _) \<Rightarrow>
          (s, [Notify_next, Log Warn] @ replicate (nat n) Await_done @ [Close_session])
      | (_, rq) \<Rightarrow>
          (s\<lparr>reqNewConnChan := rq\<rparr>,
           [Notify_next] @ replicate (nat n) Await_done @ [Close_session]))"

text \<open>
  \<^verbatim>\<open>handleSessionError\<close> first puts the user connection back with a blocking send,
  then does what \<^verbatim>\<open>finalizeSession\<close> does. The flag of the result says that the
  goroutine is parked in that send; what it does once the send completes (the same
  steps, none of which opens a stream) is not followed further.
\<close>

definition handleSessionError :: "server \<Rightarrow> LocalTCPConn \<Rightarrow> int \<Rightarrow> (server \<times> action list) \<times> bool" where
  "handleSessionError s incomingConn n =
     (case blocking_send incomingConn (localChannel s) of
        (WouldBlock, lq) \<Rightarrow> ((s\<lparr>localChannel := lq\<rparr>, [Log Error]), True)
      | (_, lq) \<Rightarrow>
          (let (s', acts) = finalizeSession (s\<lparr>localChannel := lq\<rparr>) n
           in ((s', Log Error # acts), False)))"

fun handleSession_step :: "sess_event \<Rightarrow> session \<Rightarrow> (session \<times> action list) option" where
  "handleSession_step Sess_ctxDone x =
     (if status x = Serving \<and> ctx_done (ssrv x)
      then Some (x\<lparr>counter := (if counter x > 0 then 0 else counter x), status := Cancelled\<rparr>,
                 replicate (nat (counter x)) Await_done)
      else None)"
| "handleSession_step (Sess_incoming open_ok send_ok) x =
     (if status x \<noteq> Serving then None
      else case try_recv (localChannel (ssrv x)) of
        (None, _) \<Rightarrow> None
      | (Some incomingConn, lq) \<Rightarrow>
          let s1 = (ssrv x)\<lparr>localChannel := lq\<rparr>
          in if \<not> open_ok then
               (let ((s2, acts), stuck) = handleSessionError s1 incomingConn (counter x)
                in Some (x\<lparr>ssrv := s2, status := (if stuck then Stuck else Broken)\<rparr>, acts))
             else
               let x1 = x\<lparr>opened := Suc (opened x)\<rparr>
               in if \<not> send_ok then
                    (let ((s2, acts), stuck) = handleSessionError s1 incomingConn (counter x1)
                     in Some (x1\<lparr>ssrv := s2, status := (if stuck then Stuck else Broken)\<rparr>, acts))
                  else
                    (let x2 = x1\<lparr>ssrv := s1, counter := counter x1 + 1\<rparr>;
                         a = [Go_copier (opened x1) (conn incomingConn)]
                     in if counter x2 = MuxCon (ssrv x2) then
                          (let (s3, acts) = finalizeSession (ssrv x2) (counter x2)
                           in Some (x2\<lparr>ssrv := s3, status := Retired\<rparr>, a @ acts))
                        else Some (x2, a)))"
| "handleSession_step Sess_cancelled x = Some (x\<lparr>ssrv := (ssrv x)\<lparr>ctx_done := True\<rparr>\<rparr>, [])"

section \<open>Auxiliary predicates\<close>

text \<open>
  How far the reader goroutine of a server's \<^verbatim>\<open>channelHandler\<close> has come, against
  the reads \<open>rs\<close> the control channel had to offer at the start.
\<close>

definition reader_progress :: "read_result list \<Rightarrow> serving \<Rightarrow> bool" where
  "reader_progress rs v =
     (case reader v of
        Reading \<Rightarrow> wire v = rs \<and> seen v = []
      | Delivering r \<Rightarrow> rs = r # wire v \<and> seen v = []
      | Finished \<Rightarrow> (case rs of [] \<Rightarrow> False | r # rest \<Rightarrow> wire v = rest \<and> seen v = [r]))"

text \<open>
  The client's \<^verbatim>\<open>controlFlow\<close> as an unbuffered channel whose only sender is the
  sizer: it holds a value exactly while the sizer is parked in its send.
\<close>

definition shrink_rendezvous :: "world \<Rightarrow> bool" where
  "shrink_rendezvous w =
     (controlFlow (tr w) =
        \<lparr>cap = 0, buf = [], sendq = (if pc w = PM_send then [()] else []), recvq = 0\<rparr>)"

text \<open>
  A scenario of two 60-second windows on the client: in the first, the pooled connection
  is taken into use and one REQ_CHAN arrives; in the second, two pooled connections stay
  idle and no REQ_CHAN arrives. Each window has its 60 one-second ticks.
\<close>

definition two_windows :: "client_event list" where
  "two_windows =
     [Dialer_add, Dialer_sub, H_msg (sg SG_Chan)] @ replicate 60 PM_tickerPool @ [PM_tickerLoad]
     @ [Dialer_add, Dialer_add] @ replicate 60 PM_tickerPool @ [PM_tickerLoad]"

text \<open>
  How far a call of \<^verbatim>\<open>handleSession\<close> on a server that started as \<open>s0\<close> has
  come, with the effects it left so far: while it serves, one copier per opened stream
  and nothing else; once retired, the copiers followed by what \<^verbatim>\<open>finalizeSession\<close>
  does.
\<close>

fun is_copier :: "action \<Rightarrow> bool" where
  "is_copier (Go_copier _ _) = True"
| "is_copier _ = False"

definition retire_effects :: "server \<Rightarrow> action list" where
  "retire_effects s0 =
     Notify_next # (if chan_full (reqNewConnChan s0) then [Log Warn] else [])
       @ replicate (nat (MuxCon s0)) Await_done @ [Close_session]"

definition session_progress :: "server \<Rightarrow> session \<times> action list \<Rightarrow> bool" where
  "session_progress s0 xa =
     (case xa of (x, acts) \<Rightarrow>
        MuxCon (ssrv x) = MuxCon s0 \<and>
        (case status x of
           Serving \<Rightarrow>
             0 \<le> counter x \<and> counter x < MuxCon s0 \<and> int (opened x) = counter x
             \<and> reqNewConnChan (ssrv x) = reqNewConnChan s0
             \<and> length acts = opened x \<and> list_all is_copier acts
         | Retired \<Rightarrow>
             counter x = MuxCon s0 \<and> int (opened x) = MuxCon s0
             \<and> reqNewConnChan (ssrv x) = snd (try_send () (reqNewConnChan s0))
             \<and> list_all is_copier (take (opened x) acts)
             \<and> drop (opened x) acts = retire_effects s0
         | Cancelled \<Rightarrow> counter x = 0 \<and> int (opened x) < MuxCon s0
         | Broken \<Rightarrow> counter x < MuxCon s0 \<and> int (opened x) \<le> MuxCon s0
         | Stuck \<Rightarrow> counter x < MuxCon s0 \<and> int (opened x) \<le> MuxCon s0))"

text \<open>
  A scenario on a mux server: the local listener accepts the user connections \<open>cs\<close> in
  order, then a tunnel session is handled and meets the events \<open>evs\<close>; the result is
  where the call of \<^verbatim>\<open>handleSession\<close> stands, with its effects.
\<close>

definition session_on :: "server \<Rightarrow> nat list \<Rightarrow> sess_event list \<Rightarrow> (session \<times> action list) option" where
  "session_on s cs evs =
     Option.bind
       (handleSession_start
          (foldl (\<lambda>s' c. fst (tcpmux_acceptLocalConn c True ''127.0.0.1:80'' s')) s cs))
       (\<lambda>x0. run handleSession_step evs (x0, []))"

section \<open>Results\<close>

subsection \<open>Wire values of the signals\<close>

lemma signal_cases: "s \<in> set const_block"
  by (cases s) (simp_all add: const_block_def)

text \<open>
  C9: the wire values are HB = 0x00, REQ_CHAN = 0x01, PING = 0x02, CLOSED = 0x03,
  TCP = 0x04 and UDP = 0x05; the six values are pairwise distinct, and no other name is
  in the alphabet.
\<close>

theorem signal_wire_values:
  "sg SG_HB = 0x00 \<and> sg SG_Chan = 0x01 \<and> sg SG_Ping = 0x02 \<and> sg SG_Closed = 0x03
   \<and> sg SG_TCP = 0x04 \<and> sg SG_UDP = 0x05
   \<and> distinct (map sg const_block) \<and> length const_block = 6 \<and> set const_block = UNIV"
proof -
  have "set const_block = UNIV"
    using signal_cases by blast
  then show ?thesis
    by (simp add: sg_def const_block_def)
qed

subsection \<open>The window close of the pool sizer\<close>

lemma sdiv_nonneg: "0 \<le> (x::int) \<Longrightarrow> 0 < n \<Longrightarrow> x sdiv n = x div n"
  by (simp add: signed_divide_int_def sgn_if)

lemma round_up_div:
  fixes x n :: int
  assumes n: "0 < n"
  shows "(x + (n - 1)) div n = - ((- x) div n)"
proof -
  define q where "q = x div n"
  define r where "r = x mod n"
  have r: "0 \<le> r" "r < n" using n by (simp_all add: r_def)
  have x: "x = r + q * n" by (simp add: q_def r_def)
  have "x + (n - 1) = r + (n - 1) + q * n"
    using x by simp
  then have "(x + (n - 1)) div n = (r + (n - 1) + q * n) div n"
    by (rule arg_cong)
  also have "\<dots> = q + (r + (n - 1)) div n"
    using n by (simp only: div_mult_self1 [of n "r + (n - 1)" q])
  finally have lhs: "(x + (n - 1)) div n = q + (r + (n - 1)) div n" .
  have rhs: "- ((- x) div n) = (if r = 0 then q else q + 1)"
    using n by (simp add: zdiv_zminus1_eq_if q_def r_def)
  show ?thesis
  proof (cases "r = 0")
    case True
    have "(n - 1) div n = 0" using n by (simp add: div_pos_pos_trivial)
    then show ?thesis using lhs rhs True by simp
  next
    case False
    have "(r + (n - 1)) div n = ((r - 1) + n) div n" by (simp add: algebra_simps)
    also have "\<dots> = (r - 1) div n + 1" using n by simp
    also have "(r - 1) div n = 0" using r False by (simp add: div_pos_pos_trivial)
    finally show ?thesis using lhs rhs False by simp
  qed
qed

lemma go_ceil_div:
  fixes x n :: int
  assumes "0 \<le> x" "0 < n"
  shows "(x + (n - 1)) sdiv n = \<lceil>real_of_int x / real_of_int n\<rceil>"
proof -
  have "(x + (n - 1)) sdiv n = (x + (n - 1)) div n"
    using assms by (simp add: sdiv_nonneg)
  also have "\<dots> = - ((- x) div n)"
    using assms(2) by (rule round_up_div)
  also have "\<dots> = \<lceil>real_of_int x / real_of_int n\<rceil>"
    by (simp only: ceiling_divide_eq_div)
  finally show ?thesis .
qed

lemma go_ceil_60: "0 \<le> (x::int) \<Longrightarrow> (x + 59) sdiv 60 = \<lceil>real_of_int x / 60\<rceil>"
  using go_ceil_div [of x 60] by simp

lemma go_ceil_5: "0 \<le> (x::int) \<Longrightarrow> (x + 4) sdiv 5 = \<lceil>real_of_int x / 5\<rceil>"
  using go_ceil_div [of x 5] by simp

lemma go_ceil_4: "0 \<le> (x::int) \<Longrightarrow> (x + 3) sdiv 4 = \<lceil>real_of_int x / 4\<rceil>"
  using go_ceil_div [of x 4] by simp

lemma ceil_nonneg: "0 \<le> (x::int) \<Longrightarrow> 0 \<le> \<lceil>real_of_int x / 60\<rceil>"
proof -
  assume "0 \<le> x"
  then have "(0::real) \<le> real_of_int x / 60" by simp
  then have "\<lceil>0::real\<rceil> \<le> \<lceil>real_of_int x / 60\<rceil>" by (rule ceiling_mono)
  then show ?thesis by simp
qed

lemma blocking_send_parks:
  "recvq ch = 0 \<Longrightarrow> cap ch \<le> length (buf ch) \<Longrightarrow>
   blocking_send v ch = (WouldBlock, ch\<lparr>sendq := sendq ch @ [v]\<rparr>)"
  by (simp add: blocking_send_def try_send_def)

lemma tickerLoad_counters:
  "loadConnections (tr (fst (tickerLoad w))) = 0 \<and> poolConnectionsSum (fst (tickerLoad w)) = 0"
  by (simp add: tickerLoad_def Let_def split: prod.splits)

lemma tickerLoad_grow:
  "((sint (loadConnections (tr w)) + 59) sdiv 60 + 4) sdiv 5 > (sint (poolConnectionsSum w) + 59) sdiv 60
   \<Longrightarrow> newPoolSize (fst (tickerLoad w)) = newPoolSize w + 1
       \<and> snd (tickerLoad w) = [Log Info, Go_tunnelDialer]"
  by (simp add: tickerLoad_def Let_def)

lemma tickerLoad_shrink:
  "\<not> ((sint (loadConnections (tr w)) + 59) sdiv 60 + 4) sdiv 5 > (sint (poolConnectionsSum w) + 59) sdiv 60
   \<Longrightarrow> ((sint (loadConnections (tr w)) + 59) sdiv 60 + 3) sdiv 4 < (sint (poolConnectionsSum w) + 59) sdiv 60
   \<Longrightarrow> newPoolSize w > ConnPoolSize (tr w)
   \<Longrightarrow> newPoolSize (fst (tickerLoad w)) = newPoolSize w - 1
       \<and> snd (tickerLoad w) = [Log Info]"
  by (simp add: tickerLoad_def Let_def split: prod.splits)

lemma tickerLoad_keep:
  "\<not> ((sint (loadConnections (tr w)) + 59) sdiv 60 + 4) sdiv 5 > (sint (poolConnectionsSum w) + 59) sdiv 60
   \<Longrightarrow> \<not> (((sint (loadConnections (tr w)) + 59) sdiv 60 + 3) sdiv 4 < (sint (poolConnectionsSum w) + 59) sdiv 60
          \<and> newPoolSize w > ConnPoolSize (tr w))
   \<Longrightarrow> newPoolSize (fst (tickerLoad w)) = newPoolSize w
       \<and> snd (tickerLoad w) = []"
  by (simp add: tickerLoad_def Let_def split: prod.splits)

text \<open>
  C1: at the 60-second tick, with non-negative counters, the two averages of the code are
  the ceilings of sum / 60, and the code's \<open>(l + 4) / 5\<close> and \<open>(l + 3) / 4\<close> are the
  ceilings of load / 5 and load / 4; both accumulators are zero afterwards; the target
  grows by one with exactly one dialer started when the ceiling of load / 5 exceeds the
  pool average, else shrinks by one when the ceiling of load / 4 is below the pool
  average and the target is above \<^verbatim>\<open>ConnPoolSize\<close>, else stays.
\<close>

theorem window_close_ceilings:
  assumes "0 \<le> sint (loadConnections (tr w))" and "0 \<le> sint (poolConnectionsSum w)"
  shows "let avg_load = \<lceil>real_of_int (sint (loadConnections (tr w))) / 60\<rceil>;
             avg_pool = \<lceil>real_of_int (sint (poolConnectionsSum w)) / 60\<rceil>;
             w' = fst (tickerLoad w);
             spawned = count_list (snd (tickerLoad w)) Go_tunnelDialer
         in (sint (loadConnections (tr w)) + 59) sdiv 60 = avg_load
          \<and> (sint (poolConnectionsSum w) + 59) sdiv 60 = avg_pool
          \<and> (avg_load + 4) sdiv 5 = \<lceil>real_of_int avg_load / 5\<rceil>
          \<and> (avg_load + 3) sdiv 4 = \<lceil>real_of_int avg_load / 4\<rceil>
          \<and> loadConnections (tr w') = 0 \<and> poolConnectionsSum w' = 0
          \<and> (if \<lceil>real_of_int avg_load / 5\<rceil> > avg_pool
              then newPoolSize w' = newPoolSize w + 1 \<and> spawned = 1
              else if \<lceil>real_of_int avg_load / 4\<rceil> < avg_pool \<and> newPoolSize w > ConnPoolSize (tr w)
              then newPoolSize w' = newPoolSize w - 1 \<and> spawned = 0
              else newPoolSize w' = newPoolSize w \<and> spawned = 0)"
proof -
  define l where "l = sint (loadConnections (tr w))"
  define p where "p = sint (poolConnectionsSum w)"
  define al where "al = \<lceil>real_of_int l / 60\<rceil>"
  define ap where "ap = \<lceil>real_of_int p / 60\<rceil>"
  have l60: "(l + 59) sdiv 60 = al" using assms(1) by (simp add: go_ceil_60 l_def al_def)
  have p60: "(p + 59) sdiv 60 = ap" using assms(2) by (simp add: go_ceil_60 p_def ap_def)
  have al0: "0 \<le> al" unfolding al_def l_def using assms(1) by (rule ceil_nonneg)
  have a5: "(al + 4) sdiv 5 = \<lceil>real_of_int al / 5\<rceil>" using al0 by (rule go_ceil_5)
  have a4: "(al + 3) sdiv 4 = \<lceil>real_of_int al / 4\<rceil>" using al0 by (rule go_ceil_4)
  have dec: "(if \<lceil>real_of_int al / 5\<rceil> > ap
              then newPoolSize (fst (tickerLoad w)) = newPoolSize w + 1
                   \<and> count_list (snd (tickerLoad w)) Go_tunnelDialer = 1
              else if \<lceil>real_of_int al / 4\<rceil> < ap \<and> newPoolSize w > ConnPoolSize (tr w)
              then newPoolSize (fst (tickerLoad w)) = newPoolSize w - 1
                   \<and> count_list (snd (tickerLoad w)) Go_tunnelDialer = 0
              else newPoolSize (fst (tickerLoad w)) = newPoolSize w
                   \<and> count_list (snd (tickerLoad w)) Go_tunnelDialer = 0)"
  proof (cases "\<lceil>real_of_int al / 5\<rceil> > ap")
    case True
    then have "((l + 59) sdiv 60 + 4) sdiv 5 > (p + 59) sdiv 60"
      by (simp add: l60 p60 a5)
    then show ?thesis
      using True tickerLoad_grow [of w] by (simp add: l_def p_def)
  next
    case False
    then have ng: "\<not> ((l + 59) sdiv 60 + 4) sdiv 5 > (p + 59) sdiv 60"
      by (simp add: l60 p60 a5)
    show ?thesis
    proof (cases "\<lceil>real_of_int al / 4\<rceil> < ap \<and> newPoolSize w > ConnPoolSize (tr w)")
      case True
      then have "((l + 59) sdiv 60 + 3) sdiv 4 < (p + 59) sdiv 60"
        by (simp add: l60 p60 a4)
      then show ?thesis
        using False True ng tickerLoad_shrink [of w] by (simp add: l_def p_def)
    next
      case nd: False
      then have "\<not> (((l + 59) sdiv 60 + 3) sdiv 4 < (p + 59) sdiv 60
                    \<and> newPoolSize w > ConnPoolSize (tr w))"
        by (simp add: l60 p60 a4)
      then show ?thesis
        using False nd ng tickerLoad_keep [of w] by (simp add: l_def p_def)
    qed
  qed
  show ?thesis
    unfolding Let_def
    using l60 p60 a5 a4 dec tickerLoad_counters [of w]
    by (simp only: l_def p_def al_def ap_def)
qed

theorem window_close_ceilings_witness:
  "0 \<le> sint (600 :: int32) \<and> 0 \<le> sint (60 :: int32)
   \<and> newPoolSize (fst (tickerLoad
         \<lparr>tr = (NewTCPClient False 2)\<lparr>loadConnections := 600\<rparr>, newPoolSize = 2,
          poolConnectionsSum = 60, pc = PM_select, handler_running = True\<rparr>)) = 3
   \<and> count_list (snd (tickerLoad
         \<lparr>tr = (NewTCPClient False 2)\<lparr>loadConnections := 600\<rparr>, newPoolSize = 2,
          poolConnectionsSum = 60, pc = PM_select, handler_running = True\<rparr>)) Go_tunnelDialer = 1"
  using window_close_ceilings
    [of "\<lparr>tr = (NewTCPClient False 2)\<lparr>loadConnections := 600\<rparr>, newPoolSize = 2,
          poolConnectionsSum = 60, pc = PM_select, handler_running = True\<rparr>"]
  by (simp add: Let_def NewTCPClient_def)

subsection \<open>Runs\<close>

lemma sg_values:
  "sg SG_HB = 0" "sg SG_Chan = 1" "sg SG_Ping = 2" "sg SG_Closed = 3" "sg SG_TCP = 4" "sg SG_UDP = 5"
  by (simp_all add: sg_def const_block_def)

lemma run_append:
  "run step (es @ fs) (s, acts) =
     (case run step es (s, acts) of None \<Rightarrow> None | Some sa \<Rightarrow> run step fs sa)"
proof (induction es arbitrary: s acts)
  case Nil
  show ?case by simp
next
  case (Cons e es)
  show ?case
    by (cases "step e s") (auto simp: Cons.IH)
qed

lemma run_invariant:
  assumes step: "\<And>e s s' new. P s \<Longrightarrow> step e s = Some (s', new) \<Longrightarrow> P s'"
    and "P s" and "run step es (s, acts) = Some (s', acts')"
  shows "P s'"
  using assms(2,3)
proof (induction es arbitrary: s acts)
  case Nil
  then show ?case by simp
next
  case (Cons e es)
  from Cons.prems(2) obtain s1 new where
    e: "step e s = Some (s1, new)" and rest: "run step es (s1, acts @ new) = Some (s', acts')"
    by (auto split: option.splits)
  from step [OF Cons.prems(1) e] have "P s1" .
  then show ?case using rest by (rule Cons.IH)
qed

subsection \<open>The floor of the target pool size\<close>

lemma tickerLoad_floor:
  "ConnPoolSize (tr w) \<le> newPoolSize w \<Longrightarrow>
   ConnPoolSize (tr (fst (tickerLoad w))) = ConnPoolSize (tr w)
   \<and> ConnPoolSize (tr w) \<le> newPoolSize (fst (tickerLoad w))"
  by (simp add: tickerLoad_def Let_def split: prod.splits)

lemma on_msg_floor:
  "ConnPoolSize (tr (fst (on_msg b w))) = ConnPoolSize (tr w)
   \<and> newPoolSize (fst (on_msg b w)) = newPoolSize w"
  by (simp add: on_msg_def Let_def split: prod.splits option.splits)

lemma client_step_floor:
  assumes "ConnPoolSize (tr w) = n \<and> n \<le> newPoolSize w"
    and "client_step e w = Some (w', new)"
  shows "ConnPoolSize (tr w') = n \<and> n \<le> newPoolSize w'"
proof (cases e)
  case PM_tickerLoad
  then have "w' = fst (tickerLoad w)" using assms(2) by (auto split: if_splits)
  then show ?thesis using assms(1) tickerLoad_floor [of w] by simp
next
  case (H_msg b)
  then have "w' = fst (on_msg b w)" using assms(2) by (auto split: if_splits)
  then show ?thesis using assms(1) on_msg_floor [of b w] by simp
qed (use assms in \<open>auto simp: tickerPool_def split: if_splits\<close>)

text \<open>
  C4: in every state that a run of the established client reaches, the target pool size
  is at least \<^verbatim>\<open>ConnPoolSize\<close>; it starts at \<^verbatim>\<open>ConnPoolSize\<close>, and the
  configured value does not change during the run.
\<close>

theorem pool_size_floor:
  assumes "run client_step evs (established c k) = Some (w, acts)"
  shows "newPoolSize (fst (established c k)) = ConnPoolSize c
         \<and> ConnPoolSize (tr w) = ConnPoolSize c
         \<and> ConnPoolSize c \<le> newPoolSize w"
proof -
  obtain w0 a0 where e: "established c k = (w0, a0)" by (cases "established c k")
  then have w0: "ConnPoolSize (tr w0) = ConnPoolSize c \<and> ConnPoolSize c \<le> newPoolSize w0"
    and n0: "newPoolSize w0 = ConnPoolSize c"
    by (auto simp: established_def)
  have r: "run client_step evs (w0, a0) = Some (w, acts)"
    using assms e by simp
  have "ConnPoolSize (tr w) = ConnPoolSize c \<and> ConnPoolSize c \<le> newPoolSize w"
  proof (rule run_invariant [where step = client_step and s = w0 and es = evs
        and P = "\<lambda>w. ConnPoolSize (tr w) = ConnPoolSize c \<and> ConnPoolSize c \<le> newPoolSize w"])
    show "ConnPoolSize (tr w0) = ConnPoolSize c \<and> ConnPoolSize c \<le> newPoolSize w0" by (rule w0)
    show "run client_step evs (w0, a0) = Some (w, acts)" by (rule r)
  next
    fix e s s' new
    assume "ConnPoolSize (tr s) = ConnPoolSize c \<and> ConnPoolSize c \<le> newPoolSize s"
      and "client_step e s = Some (s', new)"
    then show "ConnPoolSize (tr s') = ConnPoolSize c \<and> ConnPoolSize c \<le> newPoolSize s'"
      by (rule client_step_floor)
  qed
  then show ?thesis using n0 e by simp
qed

lemma run_tickerPool:
  "pc w = PM_select \<Longrightarrow>
   run client_step (replicate n PM_tickerPool @ es) (w, acts) =
   run client_step es
     (w\<lparr>poolConnectionsSum := poolConnectionsSum w + of_nat n * poolConnections (tr w)\<rparr>, acts)"
proof (induction n arbitrary: w)
  case 0
  then show ?case by simp
next
  case (Suc n)
  let ?w1 = "w\<lparr>poolConnectionsSum := poolConnectionsSum w + poolConnections (tr w)\<rparr>"
  have "run client_step (replicate (Suc n) PM_tickerPool @ es) (w, acts)
        = run client_step (replicate n PM_tickerPool @ es) (?w1, acts)"
    using Suc.prems by (simp add: tickerPool_def)
  also have "\<dots> = run client_step es
      (?w1\<lparr>poolConnectionsSum := poolConnectionsSum ?w1 + of_nat n * poolConnections (tr ?w1)\<rparr>, acts)"
    using Suc.prems by (intro Suc.IH) simp
  finally show ?case by (simp add: algebra_simps)
qed

theorem pool_size_floor_witness:
  "(case run client_step [H_msg (sg SG_Chan), PM_tickerLoad] (established (NewTCPClient False 1) 7) of
      None \<Rightarrow> False
    | Some (w, acts) \<Rightarrow> newPoolSize w = 2 \<and> ConnPoolSize (NewTCPClient False 1) \<le> newPoolSize w)"
proof -
  have "\<exists>w acts. run client_step [H_msg (sg SG_Chan), PM_tickerLoad] (established (NewTCPClient False 1) 7)
          = Some (w, acts) \<and> newPoolSize w = 2"
    by (simp add: established_def NewTCPClient_def on_msg_def sg_values tickerLoad_def
        try_recv_def make_chan_def Let_def signed_divide_int_def)
  then obtain w acts where
    r: "run client_step [H_msg (sg SG_Chan), PM_tickerLoad] (established (NewTCPClient False 1) 7) = Some (w, acts)"
    and n: "newPoolSize w = 2"
    by blast
  from pool_size_floor [OF r] have "ConnPoolSize (NewTCPClient False 1) \<le> newPoolSize w"
    by simp
  then show ?thesis using r n by simp
qed

subsection \<open>REQ_CHAN on the client and the shrink token\<close>

lemma try_recv_rendezvous:
  "try_recv \<lparr>cap = 0, buf = [], sendq = (if b then [()] else []), recvq = 0\<rparr>
   = (if b then (Some (), \<lparr>cap = 0, buf = [], sendq = [], recvq = 0\<rparr>)
      else (None, \<lparr>cap = 0, buf = [], sendq = [], recvq = 0\<rparr>))"
  by (simp add: try_recv_def)

lemma blocking_send_rendezvous:
  "blocking_send () \<lparr>cap = 0, buf = [], sendq = [], recvq = 0\<rparr>
   = (WouldBlock, \<lparr>cap = 0, buf = [], sendq = [()], recvq = 0\<rparr>)"
  by (simp add: blocking_send_def try_send_def)

lemma tickerLoad_rendezvous:
  assumes "shrink_rendezvous w" and "pc w = PM_select"
  shows "shrink_rendezvous (fst (tickerLoad w))"
  using assms
  by (simp add: shrink_rendezvous_def tickerLoad_def Let_def blocking_send_rendezvous)

lemma tickerLoad_parks:
  assumes "shrink_rendezvous w" and "pc w = PM_select"
    and "newPoolSize (fst (tickerLoad w)) < newPoolSize w"
  shows "pc (fst (tickerLoad w)) = PM_send"
  using assms
  by (simp add: shrink_rendezvous_def tickerLoad_def Let_def blocking_send_rendezvous
      split: if_splits)

lemma on_msg_rendezvous:
  assumes "shrink_rendezvous w"
  shows "shrink_rendezvous (fst (on_msg b w))"
  using assms
  by (simp add: shrink_rendezvous_def on_msg_def Let_def try_recv_rendezvous)

lemma client_step_rendezvous:
  assumes "shrink_rendezvous w" and "client_step e w = Some (w', new)"
  shows "shrink_rendezvous w'"
proof (cases e)
  case PM_tickerLoad
  then have "w' = fst (tickerLoad w)" and "pc w = PM_select"
    using assms(2) by (auto split: if_splits)
  then show ?thesis using assms(1) tickerLoad_rendezvous by simp
next
  case (H_msg b)
  then have "w' = fst (on_msg b w)" using assms(2) by (auto split: if_splits)
  then show ?thesis using assms(1) on_msg_rendezvous by simp
qed (use assms in \<open>auto simp: tickerPool_def shrink_rendezvous_def split: if_splits\<close>)

lemma on_msg_Chan_load:
  "loadConnections (tr (fst (on_msg (sg SG_Chan) w))) = loadConnections (tr w) + 1"
  by (simp add: on_msg_def Let_def split: prod.splits option.splits)

lemma on_msg_Chan_token:
  assumes "shrink_rendezvous w" and "pc w = PM_send"
  shows "count_list (snd (on_msg (sg SG_Chan) w)) Go_tunnelDialer = 0
         \<and> pc (fst (on_msg (sg SG_Chan) w)) = PM_select"
  using assms by (simp add: shrink_rendezvous_def on_msg_def Let_def try_recv_def)

lemma on_msg_Chan_no_token:
  assumes "shrink_rendezvous w" and "pc w \<noteq> PM_send"
  shows "count_list (snd (on_msg (sg SG_Chan) w)) Go_tunnelDialer = 1
         \<and> pc (fst (on_msg (sg SG_Chan) w)) = pc w
         \<and> controlFlow (tr (fst (on_msg (sg SG_Chan) w))) = controlFlow (tr w)"
  using assms by (simp add: shrink_rendezvous_def on_msg_def Let_def try_recv_def)

lemma established_rendezvous:
  "controlFlow c = make_chan 0 \<Longrightarrow> shrink_rendezvous (fst (established c k))"
  by (simp add: shrink_rendezvous_def established_def make_chan_def)

lemma constructors_make_unbuffered:
  "controlFlow (NewTCPClient pd n) = make_chan 0"
  "\<not> restartMutex c \<Longrightarrow> controlFlow (fst (client_Restart c)) = make_chan 0"
  by (simp_all add: NewTCPClient_def client_Restart_def Let_def)

text \<open>
  C5, as the code has it: \<^verbatim>\<open>controlFlow\<close> is made without a buffer (capacity 0) by
  the constructor and by \<^verbatim>\<open>Restart\<close>. In every state that a run of the established
  client reaches, a REQ_CHAN adds one to the load counter and then tries a non-blocking
  receive on \<^verbatim>\<open>controlFlow\<close>; a value is there exactly when the sizer is parked in
  its send, and then no dialer is started and the sizer goes on; otherwise exactly one
  dialer is started. A decrement by the sizer parks the sizer in the send.
\<close>

theorem req_chan_dispatch:
  assumes "controlFlow c = make_chan 0"
    and "run client_step evs (established c k) = Some (w, acts)"
  shows "cap (controlFlow (tr w)) = 0
     \<and> loadConnections (tr (fst (on_msg (sg SG_Chan) w))) = loadConnections (tr w) + 1
     \<and> (fst (try_recv (controlFlow (tr w))) \<noteq> None \<longleftrightarrow> pc w = PM_send)
     \<and> (if fst (try_recv (controlFlow (tr w))) \<noteq> None
         then count_list (snd (on_msg (sg SG_Chan) w)) Go_tunnelDialer = 0
              \<and> pc (fst (on_msg (sg SG_Chan) w)) = PM_select
         else count_list (snd (on_msg (sg SG_Chan) w)) Go_tunnelDialer = 1
              \<and> controlFlow (tr (fst (on_msg (sg SG_Chan) w))) = controlFlow (tr w))
     \<and> (pc w = PM_select \<and> newPoolSize (fst (tickerLoad w)) < newPoolSize w
          \<longrightarrow> pc (fst (tickerLoad w)) = PM_send)"
proof -
  obtain w0 a0 where e: "established c k = (w0, a0)" by (cases "established c k")
  have w0: "shrink_rendezvous w0"
    using established_rendezvous [OF assms(1), of k] e by simp
  have r: "run client_step evs (w0, a0) = Some (w, acts)"
    using assms(2) e by simp
  have J: "shrink_rendezvous w"
  proof (rule run_invariant [where step = client_step and s = w0 and es = evs
        and P = shrink_rendezvous])
    show "shrink_rendezvous w0" by (rule w0)
    show "run client_step evs (w0, a0) = Some (w, acts)" by (rule r)
  next
    fix e s s' new
    assume "shrink_rendezvous s" and "client_step e s = Some (s', new)"
    then show "shrink_rendezvous s'" by (rule client_step_rendezvous)
  qed
  have c0: "cap (controlFlow (tr w)) = 0"
    using J by (simp add: shrink_rendezvous_def)
  have tok: "fst (try_recv (controlFlow (tr w))) \<noteq> None \<longleftrightarrow> pc w = PM_send"
    using J by (simp add: shrink_rendezvous_def try_recv_def)
  have disp: "if fst (try_recv (controlFlow (tr w))) \<noteq> None
         then count_list (snd (on_msg (sg SG_Chan) w)) Go_tunnelDialer = 0
              \<and> pc (fst (on_msg (sg SG_Chan) w)) = PM_select
         else count_list (snd (on_msg (sg SG_Chan) w)) Go_tunnelDialer = 1
              \<and> controlFlow (tr (fst (on_msg (sg SG_Chan) w))) = controlFlow (tr w)"
  proof (cases "pc w = PM_send")
    case True
    then show ?thesis using tok on_msg_Chan_token [OF J True] by simp
  next
    case False
    then show ?thesis using tok on_msg_Chan_no_token [OF J False] by simp
  qed
  have park: "pc w = PM_select \<and> newPoolSize (fst (tickerLoad w)) < newPoolSize w
          \<longrightarrow> pc (fst (tickerLoad w)) = PM_send"
    using tickerLoad_parks [OF J] by blast
  show ?thesis
    using c0 on_msg_Chan_load [of w] tok disp park by blast
qed

lemma two_windows_run:
  "run client_step two_windows (established (NewTCPClient False 1) 7) =
   Some (\<lparr>tr = \<lparr>TunnelStatus = ''Connected (TCP)'', parentctx_done = False, ctx_gen = 0,
            ctx_done = False, cancel_set = True, controlChannel = Some 7,
            usageMonitor = 0, restartMutex = False, ConnPoolSize = 1,
            poolConnections = 2, loadConnections = 0,
            controlFlow = \<lparr>cap = 0, buf = [], sendq = [()], recvq = 0\<rparr>\<rparr>,
      newPoolSize = 1, poolConnectionsSum = 0, pc = PM_send,
      handler_running = True\<rparr>,
   [Log Info, Go_tunnelDialer, Log Debug, Go_tunnelDialer, Log Info, Go_tunnelDialer,
    Log Info])"
  by (simp add: two_windows_def run_tickerPool established_def NewTCPClient_def on_msg_def
      sg_values tickerLoad_def try_recv_def blocking_send_def try_send_def make_chan_def
      Let_def signed_divide_int_def)

theorem req_chan_dispatch_witness:
  "controlFlow (NewTCPClient False 1) = make_chan 0
   \<and> (case run client_step two_windows (established (NewTCPClient False 1) 7) of
        None \<Rightarrow> False
      | Some (w, acts) \<Rightarrow>
          pc w = PM_send \<and> cap (controlFlow (tr w)) = 0
          \<and> count_list (snd (on_msg (sg SG_Chan) w)) Go_tunnelDialer = 0
          \<and> pc (fst (on_msg (sg SG_Chan) w)) = PM_select)"
proof -
  have c: "controlFlow (NewTCPClient False 1) = make_chan 0"
    by (simp add: NewTCPClient_def)
  obtain w acts where
    r: "run client_step two_windows (established (NewTCPClient False 1) 7) = Some (w, acts)"
    and p: "pc w = PM_send"
    using two_windows_run by simp
  from req_chan_dispatch [OF c r] p show ?thesis
    using c r by simp
qed

text \<open>
  Against C5 as stated (capacity 1, the emit does not block): after a window that grew
  the target and a quiet window that shrinks it again, the sizer stands parked in the
  send on a channel of capacity 0.
\<close>

theorem shrink_token_send_blocks:
  "cap (controlFlow (NewTCPClient False 1)) = 0
   \<and> map_option (\<lambda>(w, acts). (newPoolSize w, pc w, sendq (controlFlow (tr w))))
        (run client_step two_windows (established (NewTCPClient False 1) 7))
      = Some (1, PM_send, [()])"
  by (simp add: two_windows_run) (simp add: NewTCPClient_def make_chan_def)

subsection \<open>Bytes that are no expected signal\<close>

lemma on_msg_restart:
  "b \<noteq> sg SG_HB \<Longrightarrow> b \<noteq> sg SG_Chan \<Longrightarrow>
   Go_Restart \<in> set (snd (on_msg b w)) \<and> \<not> handler_running (fst (on_msg b w))"
  by (simp add: on_msg_def)

lemma on_msg_no_restart:
  "b = sg SG_HB \<or> b = sg SG_Chan \<Longrightarrow>
   Go_Restart \<notin> set (snd (on_msg b w)) \<and> handler_running (fst (on_msg b w)) = handler_running w"
  by (auto simp: on_msg_def sg_values Let_def split: prod.splits option.splits)

lemma on_result_restart:
  "(Go_Restart \<in> set (snd (on_result (Got b) v)) \<longleftrightarrow> b = sg SG_Closed)
   \<and> (running (fst (on_result (Got b) v)) \<longleftrightarrow> running v \<and> b \<noteq> sg SG_Closed)"
  by (simp add: on_result_def)

text \<open>
  What the two consumers do with a received byte. The client's \<^verbatim>\<open>switch\<close> starts
  \<^verbatim>\<open>Restart\<close> and returns on every byte other than HB and REQ_CHAN: on CLOSED, and
  through its \<^verbatim>\<open>default\<close> branch on every byte outside the alphabet. The server's
  consumer compares the byte with CLOSED only and has no other branch.
\<close>

lemma consumers_on_received_byte:
  "(b \<noteq> sg SG_HB \<and> b \<noteq> sg SG_Chan \<longrightarrow>
      Go_Restart \<in> set (snd (on_msg b w)) \<and> \<not> handler_running (fst (on_msg b w)))
   \<and> (b = sg SG_HB \<or> b = sg SG_Chan \<longrightarrow>
      Go_Restart \<notin> set (snd (on_msg b w))
      \<and> handler_running (fst (on_msg b w)) = handler_running w)
   \<and> (Go_Restart \<in> set (snd (on_result (Got b) v)) \<longleftrightarrow> b = sg SG_Closed)
   \<and> (running (fst (on_result (Got b) v)) \<longleftrightarrow> running v \<and> b \<noteq> sg SG_Closed)
   \<and> (b \<noteq> sg SG_Closed \<longrightarrow> on_result (Got b) v = (v, []))"
  using on_msg_restart [of b w] on_msg_no_restart [of b w] on_result_restart [of b v]
  by (simp add: on_result_def)

text \<open>
  C2 at an established server whose client sends the byte 0x07 and then CLOSED. The
  byte 0x07 is no signal of the alphabet. The client's consumer, given that byte, starts
  \<^verbatim>\<open>Restart\<close> and returns. The server's consumer takes the byte from the reader
  goroutine, starts no \<^verbatim>\<open>Restart\<close> and goes on running (the next heartbeat is
  written); the reader goroutine is finished and cannot read again, so the CLOSED that
  follows stays unread on the connection.
\<close>

theorem server_ignores_unknown_byte:
  "7 \<notin> set (map sg const_block)
   \<and> Go_Restart \<in> set (snd (on_msg 7 (fst (established (NewTCPClient False 1) 9))))
   \<and> \<not> handler_running (fst (on_msg 7 (fst (established (NewTCPClient False 1) 9))))
   \<and> Option.bind (NewTCPServer False 4)
        (\<lambda>s. map_option
           (\<lambda>(v, acts). (running v, seen v, wire v, reader v, acts, server_step R_read v))
           (run server_step [R_read, S_result, S_ticker True]
              (channelHandler_start (tcp_connected s 9) [Got 7, Got (sg SG_Closed)], [])))
      = Some (True, [Got 7], [Got (sg SG_Closed)], Finished,
              [Write_byte (sg SG_HB), Log Trace], None)"
proof -
  have a: "7 \<notin> set (map sg const_block)"
    by (simp add: sg_def const_block_def)
  have b: "Go_Restart \<in> set (snd (on_msg 7 (fst (established (NewTCPClient False 1) 9))))
           \<and> \<not> handler_running (fst (on_msg 7 (fst (established (NewTCPClient False 1) 9))))"
    by (rule on_msg_restart) (simp_all add: sg_values)
  have c: "Option.bind (NewTCPServer False 4)
        (\<lambda>s. map_option
           (\<lambda>(v, acts). (running v, seen v, wire v, reader v, acts, server_step R_read v))
           (run server_step [R_read, S_result, S_ticker True]
              (channelHandler_start (tcp_connected s 9) [Got 7, Got (sg SG_Closed)], [])))
      = Some (True, [Got 7], [Got (sg SG_Closed)], Finished,
              [Write_byte (sg SG_HB), Log Trace], None)"
    by (simp add: sg_values NewTCPServer_def channelHandler_start_def on_result_def
        tcp_connected_def)
  show ?thesis using a b c by simp
qed

subsection \<open>The server reads the control channel once\<close>

lemma reader_progress_fields:
  "reader v' = reader v \<Longrightarrow> wire v' = wire v \<Longrightarrow> seen v' = seen v \<Longrightarrow>
   reader_progress rs v' = reader_progress rs v"
  by (simp add: reader_progress_def split: reader.splits list.splits)

lemma server_step_other:
  assumes "e \<noteq> R_read" and "e \<noteq> S_result" and "server_step e v = Some (v', new)"
  shows "reader v' = reader v \<and> wire v' = wire v \<and> seen v' = seen v"
  using assms
  by (cases e) (auto simp: Let_def split: if_splits prod.splits option.splits)

lemma server_step_progress:
  assumes "reader_progress rs v" and "server_step e v = Some (v', new)"
  shows "reader_progress rs v'"
proof (cases "e = R_read \<or> e = S_result")
  case False
  then have "reader v' = reader v \<and> wire v' = wire v \<and> seen v' = seen v"
    using assms(2) by (intro server_step_other) auto
  then show ?thesis using assms(1) reader_progress_fields by blast
next
  case True
  then show ?thesis
  proof
    assume "e = R_read"
    then show ?thesis
      using assms
      by (auto simp: reader_progress_def split: reader.splits list.splits)
  next
    assume "e = S_result"
    then obtain r where r: "reader v = Delivering r" "running v"
      and v': "v' = fst (on_result r (v\<lparr>reader := Finished, seen := seen v @ [r]\<rparr>))"
      using assms(2) by (auto split: reader.splits bool.splits)
    have "reader v' = Finished \<and> seen v' = seen v @ [r] \<and> wire v' = wire v"
      using v' by (auto simp: on_result_def split: read_result.splits)
    then show ?thesis
      using assms(1) r by (auto simp: reader_progress_def)
  qed
qed

lemma reader_progress_seen:
  assumes "reader_progress rs v"
  shows "prefix (seen v) (take 1 rs) \<and> (wire v = rs \<or> wire v = tl rs)
         \<and> (reader v = Reading \<or> server_step R_read v = None)"
  using assms
  by (cases "reader v"; cases rs) (auto simp: reader_progress_def)

text \<open>
  C10: whatever the run of an established server's \<^verbatim>\<open>channelHandler\<close>, at most one
  read is taken from the control channel, the reader goroutine cannot read again once it
  has read, and what the consumer loop gets to see is a prefix of the first item: nothing
  the client sends after its first byte is observed.
\<close>

theorem server_reads_once:
  assumes "run server_step evs (channelHandler_start s rs, []) = Some (v, acts)"
  shows "prefix (seen v) (take 1 rs) \<and> length (seen v) \<le> 1
         \<and> (wire v = rs \<or> wire v = tl rs)
         \<and> (reader v = Reading \<or> server_step R_read v = None)"
proof -
  have p: "reader_progress rs v"
  proof (rule run_invariant [where step = server_step and s = "channelHandler_start s rs"
        and es = evs and P = "reader_progress rs"])
    show "reader_progress rs (channelHandler_start s rs)"
      by (simp add: reader_progress_def channelHandler_start_def)
    show "run server_step evs (channelHandler_start s rs, []) = Some (v, acts)"
      by (rule assms)
  next
    fix e x x' new
    assume "reader_progress rs x" and "server_step e x = Some (x', new)"
    then show "reader_progress rs x'" by (rule server_step_progress)
  qed
  from reader_progress_seen [OF p]
  have a: "prefix (seen v) (take 1 rs)" and b: "wire v = rs \<or> wire v = tl rs"
    and c: "reader v = Reading \<or> server_step R_read v = None"
    by simp_all
  from a have "length (seen v) \<le> length (take 1 rs)" by (rule prefix_length_le)
  then have "length (seen v) \<le> 1" by simp
  then show ?thesis using a b c by simp
qed

theorem server_reads_once_witness:
  "(case NewTCPServer False 4 of
      None \<Rightarrow> False
    | Some s \<Rightarrow>
       (case run server_step [R_read, S_result, S_ticker True]
               (channelHandler_start (tcp_connected s 9) [Got (sg SG_HB), Got (sg SG_Closed)], []) of
          None \<Rightarrow> False
        | Some (v, acts) \<Rightarrow>
            seen v = [Got (sg SG_HB)] \<and> wire v = [Got (sg SG_Closed)] \<and> running v
            \<and> Go_Restart \<notin> set acts \<and> server_step R_read v = None
            \<and> prefix (seen v) (take 1 [Got (sg SG_HB), Got (sg SG_Closed)])))"
proof -
  obtain s where s: "NewTCPServer False 4 = Some s"
    by (simp add: NewTCPServer_def)
  have "\<exists>v acts. run server_step [R_read, S_result, S_ticker True]
               (channelHandler_start (tcp_connected s 9) [Got (sg SG_HB), Got (sg SG_Closed)], [])
            = Some (v, acts) \<and> seen v = [Got (sg SG_HB)] \<and> wire v = [Got (sg SG_Closed)]
              \<and> running v \<and> Go_Restart \<notin> set acts \<and> reader v = Finished"
    by (simp add: channelHandler_start_def on_result_def sg_values)
  then obtain v acts where
    r: "run server_step [R_read, S_result, S_ticker True]
               (channelHandler_start (tcp_connected s 9) [Got (sg SG_HB), Got (sg SG_Closed)], [])
            = Some (v, acts)"
    and f: "seen v = [Got (sg SG_HB)]" "wire v = [Got (sg SG_Closed)]" "running v"
      "Go_Restart \<notin> set acts" "reader v = Finished"
    by blast
  from server_reads_once [OF r] f show ?thesis
    using s r by simp
qed

subsection \<open>Restart\<close>

lemma Restart_under_contention:
  "restartMutex c \<Longrightarrow> client_Restart c = (c, [Log Warn])"
  "restartMutex s \<Longrightarrow> server_Restart s = (s, [Log Warn])"
  by (simp_all add: client_Restart_def server_Restart_def)

lemma server_Restart_sequence:
  assumes "\<not> restartMutex s" and "cancel_set s" and "controlChannel s = Some k"
  shows "snd (server_Restart s) =
           [TryLock_ok, Log Info, Cancel (ctx_gen s), Close_conn k, Sleep_seconds 2,
            WithCancel_parent (Suc (ctx_gen s)), Go_Start, Unlock]"
    and "controlChannel (fst (server_Restart s)) = None"
    and "ctx_gen (fst (server_Restart s)) = Suc (ctx_gen s)"
    and "ctx_done (fst (server_Restart s)) = parentctx_done s"
    and "tunnelChannel (fst (server_Restart s)) = make_chan (nat (ChannelSize s))"
    and "localChannel (fst (server_Restart s)) = make_chan (nat (ChannelSize s))"
    and "reqNewConnChan (fst (server_Restart s)) = make_chan (nat (ChannelSize s))"
    and "\<not> restartMutex (fst (server_Restart s))"
  using assms by (simp_all add: server_Restart_def Let_def)

lemma client_Restart_sequence:
  assumes "\<not> restartMutex c" and "cancel_set c"
  shows "snd (client_Restart c) =
           [TryLock_ok, Log Info, Cancel (ctx_gen c), Sleep_seconds 2,
            WithCancel_parent (Suc (ctx_gen c)), Go_Start, Unlock]"
    and "controlChannel (fst (client_Restart c)) = None"
    and "ctx_gen (fst (client_Restart c)) = Suc (ctx_gen c)"
    and "ctx_done (fst (client_Restart c)) = parentctx_done c"
    and "poolConnections (fst (client_Restart c)) = 0"
    and "loadConnections (fst (client_Restart c)) = 0"
    and "controlFlow (fst (client_Restart c)) = make_chan 0"
    and "\<not> restartMutex (fst (client_Restart c))"
  using assms by (simp_all add: client_Restart_def Let_def)

lemma client_Restart_never_closes: "Close_conn k \<notin> set (snd (client_Restart c))"
  by (simp add: client_Restart_def Let_def)

text \<open>
  C3 at an established client whose control channel is connection 7: \<^verbatim>\<open>Restart\<close>
  takes the mutex, cancels, sleeps two seconds, derives the new context, resets the
  fields and starts \<^verbatim>\<open>Start\<close>, but it never closes connection 7; the field is set
  to nil with the connection still open.
\<close>

theorem client_Restart_leaves_connection_open:
  "controlChannel (tr (fst (established (NewTCPClient False 4) 7))) = Some 7
   \<and> \<not> restartMutex (tr (fst (established (NewTCPClient False 4) 7)))
   \<and> snd (client_Restart (tr (fst (established (NewTCPClient False 4) 7)))) =
        [TryLock_ok, Log Info, Cancel 0, Sleep_seconds 2, WithCancel_parent 1, Go_Start, Unlock]
   \<and> controlChannel (fst (client_Restart (tr (fst (established (NewTCPClient False 4) 7))))) = None"
  by (simp add: client_Restart_def established_def NewTCPClient_def Let_def)

lemma server_Restart_closes_connection:
  "Option.bind (NewTCPServer False 4) (\<lambda>s. Some (snd (server_Restart (tcp_connected s 7)))) =
     Some [TryLock_ok, Log Info, Cancel 0, Close_conn 7, Sleep_seconds 2, WithCancel_parent 1,
           Go_Start, Unlock]"
  by (simp add: server_Restart_def NewTCPServer_def tcp_connected_def Let_def)

subsection \<open>The accept path of the local listeners\<close>

lemma try_send_full: "chan_full ch \<Longrightarrow> try_send v ch = (WouldBlock, ch)"
  by (auto simp: try_send_def chan_full_def)

lemma try_send_room:
  "\<not> chan_full ch \<Longrightarrow>
   try_send v ch =
     (if 0 < recvq ch then (Handed, ch\<lparr>recvq := recvq ch - 1\<rparr>)
      else (Buffered, ch\<lparr>buf := buf ch @ [v]\<rparr>))"
  by (auto simp: try_send_def chan_full_def)

lemma accept_non_tcp:
  "tcp_acceptLocalConn c False addr s = (s, [Log Warn, Close_conn c])"
  "tcpmux_acceptLocalConn c False addr s = (s, [Log Warn, Close_conn c])"
  "wsmux_acceptLocalConn c False addr s = (s, [Log Warn, Close_conn c])"
  by (simp_all add: tcp_acceptLocalConn_def tcpmux_acceptLocalConn_def wsmux_acceptLocalConn_def)

lemma tcp_accept_full:
  "chan_full (localChannel s) \<Longrightarrow>
   tcp_acceptLocalConn c is_tcp addr s = (s, [Log Warn, Close_conn c])"
  by (simp add: tcp_acceptLocalConn_def try_send_full)

lemma try_send_room_outcome: "\<not> chan_full ch \<Longrightarrow> fst (try_send v ch) \<noteq> WouldBlock"
  by (auto simp: try_send_def chan_full_def)

lemma tcp_accept_room:
  assumes "\<not> chan_full (localChannel s)"
  shows "localChannel (fst (tcp_acceptLocalConn c True addr s))
           = snd (try_send \<lparr>conn = c, remoteAddr = addr\<rparr> (localChannel s))
         \<and> reqNewConnChan (fst (tcp_acceptLocalConn c True addr s))
           = snd (try_send () (reqNewConnChan s))
         \<and> Close_conn c \<notin> set (snd (tcp_acceptLocalConn c True addr s))"
proof -
  obtain r lq where l: "try_send \<lparr>conn = c, remoteAddr = addr\<rparr> (localChannel s) = (r, lq)"
    by (cases "try_send \<lparr>conn = c, remoteAddr = addr\<rparr> (localChannel s)")
  have r: "r \<noteq> WouldBlock"
    using try_send_room_outcome [OF assms, of "\<lparr>conn = c, remoteAddr = addr\<rparr>"] l by simp
  obtain q rq where t: "try_send () (reqNewConnChan s) = (q, rq)"
    by (cases "try_send () (reqNewConnChan s)")
  have same: "q = WouldBlock \<Longrightarrow> rq = reqNewConnChan s"
    using t by (auto simp: try_send_def split: if_splits)
  show ?thesis
    using r same
    by (cases r; cases q) (simp_all add: tcp_acceptLocalConn_def l t)
qed

lemma mux_accept_full:
  "chan_full (localChannel s) \<Longrightarrow>
   tcpmux_acceptLocalConn c is_tcp addr s = (s, [Log Warn, Close_conn c])
   \<and> wsmux_acceptLocalConn c is_tcp addr s = (s, [Log Warn, Close_conn c])"
  by (simp add: tcpmux_acceptLocalConn_def wsmux_acceptLocalConn_def try_send_full)

lemma mux_accept_room:
  assumes "\<not> chan_full (localChannel s)"
  shows "tcpmux_acceptLocalConn c True addr s
           = (s\<lparr>localChannel := snd (try_send \<lparr>conn = c, remoteAddr = addr\<rparr> (localChannel s))\<rparr>,
              [Log Debug])"
    and "wsmux_acceptLocalConn c True addr s = tcpmux_acceptLocalConn c True addr s"
  using assms
  by (auto simp: tcpmux_acceptLocalConn_def wsmux_acceptLocalConn_def try_send_room)

text \<open>
  C6, as the code has it. On all three servers an accepted connection that is no TCP
  connection is closed at once, and a user connection that finds
  \<^verbatim>\<open>localChannel\<close> full is closed and the queues stay as they are; otherwise it is
  handed to the queue by a non-blocking send. Only the TCP server then offers one token
  on \<^verbatim>\<open>reqNewConnChan\<close> by a non-blocking send, and a full \<^verbatim>\<open>reqNewConnChan\<close>
  stays as it is; the two mux servers leave \<^verbatim>\<open>reqNewConnChan\<close> untouched.
\<close>

theorem accept_path_drops_on_overflow:
  "tcp_acceptLocalConn c False addr s = (s, [Log Warn, Close_conn c])
   \<and> tcpmux_acceptLocalConn c False addr s = (s, [Log Warn, Close_conn c])
   \<and> wsmux_acceptLocalConn c False addr s = (s, [Log Warn, Close_conn c])
   \<and> (chan_full (localChannel s) \<longrightarrow>
      tcp_acceptLocalConn c True addr s = (s, [Log Warn, Close_conn c])
      \<and> tcpmux_acceptLocalConn c True addr s = (s, [Log Warn, Close_conn c])
      \<and> wsmux_acceptLocalConn c True addr s = (s, [Log Warn, Close_conn c]))
   \<and> (\<not> chan_full (localChannel s) \<longrightarrow>
      localChannel (fst (tcp_acceptLocalConn c True addr s))
        = snd (try_send \<lparr>conn = c, remoteAddr = addr\<rparr> (localChannel s))
      \<and> Close_conn c \<notin> set (snd (tcp_acceptLocalConn c True addr s))
      \<and> reqNewConnChan (fst (tcp_acceptLocalConn c True addr s))
        = (if chan_full (reqNewConnChan s) then reqNewConnChan s
           else if 0 < recvq (reqNewConnChan s)
           then (reqNewConnChan s)\<lparr>recvq := recvq (reqNewConnChan s) - 1\<rparr>
           else (reqNewConnChan s)\<lparr>buf := buf (reqNewConnChan s) @ [()]\<rparr>)
      \<and> tcpmux_acceptLocalConn c True addr s
        = (s\<lparr>localChannel := snd (try_send \<lparr>conn = c, remoteAddr = addr\<rparr> (localChannel s))\<rparr>,
           [Log Debug])
      \<and> wsmux_acceptLocalConn c True addr s = tcpmux_acceptLocalConn c True addr s)"
proof (cases "chan_full (localChannel s)")
  case True
  then show ?thesis
    using tcp_accept_full [of s c True addr] mux_accept_full [of s c True addr]
    by (simp add: accept_non_tcp)
next
  case False
  have "snd (try_send () (reqNewConnChan s))
        = (if chan_full (reqNewConnChan s) then reqNewConnChan s
           else if 0 < recvq (reqNewConnChan s)
           then (reqNewConnChan s)\<lparr>recvq := recvq (reqNewConnChan s) - 1\<rparr>
           else (reqNewConnChan s)\<lparr>buf := buf (reqNewConnChan s) @ [()]\<rparr>)"
    by (simp add: try_send_full try_send_room)
  then show ?thesis
    using False tcp_accept_room [OF False, of c addr] mux_accept_room [OF False, of c addr]
    by (simp add: accept_non_tcp)
qed

theorem accept_path_drops_on_overflow_witness:
  "(case NewTCPServer False 2 of
      None \<Rightarrow> False
    | Some s0 \<Rightarrow>
        \<not> chan_full (localChannel (tcp_connected s0 9))
        \<and> buf (reqNewConnChan (fst (tcp_acceptLocalConn 1 True ''127.0.0.1:80'' (tcp_connected s0 9))))
            = [()]
        \<and> chan_full (localChannel
              (fst (tcp_acceptLocalConn 2 True ''127.0.0.1:80''
                 (fst (tcp_acceptLocalConn 1 True ''127.0.0.1:80'' (tcp_connected s0 9))))))
        \<and> snd (tcp_acceptLocalConn 3 True ''127.0.0.1:80''
              (fst (tcp_acceptLocalConn 2 True ''127.0.0.1:80''
                 (fst (tcp_acceptLocalConn 1 True ''127.0.0.1:80'' (tcp_connected s0 9))))))
            = [Log Warn, Close_conn 3])"
proof -
  obtain s0 where s0: "NewTCPServer False 2 = Some s0"
    by (simp add: NewTCPServer_def)
  define s1 where "s1 = fst (tcp_acceptLocalConn 1 True ''127.0.0.1:80'' (tcp_connected s0 9))"
  define s2 where "s2 = fst (tcp_acceptLocalConn 2 True ''127.0.0.1:80'' s1)"
  have room: "\<not> chan_full (localChannel (tcp_connected s0 9))"
    and nofull: "\<not> chan_full (reqNewConnChan (tcp_connected s0 9))"
    and q0: "recvq (reqNewConnChan (tcp_connected s0 9)) = 0"
      "buf (reqNewConnChan (tcp_connected s0 9)) = []"
    using s0
    by (auto simp: NewTCPServer_def tcp_connected_def chan_full_def make_chan_def
        split: if_splits)
  have full: "chan_full (localChannel s2)"
    using s0
    by (auto simp: s2_def s1_def NewTCPServer_def tcp_connected_def chan_full_def make_chan_def
        tcp_acceptLocalConn_def try_send_def split: if_splits)
  from accept_path_drops_on_overflow [where s = "tcp_connected s0 9" and c = 1
      and addr = "''127.0.0.1:80''"] room nofull q0
  have a: "buf (reqNewConnChan s1) = [()]"
    by (simp add: s1_def)
  from accept_path_drops_on_overflow [where s = s2 and c = 3 and addr = "''127.0.0.1:80''"] full
  have b: "snd (tcp_acceptLocalConn 3 True ''127.0.0.1:80'' s2) = [Log Warn, Close_conn 3]"
    by simp
  show ?thesis
    using s0 room a full b by (simp add: s1_def s2_def)
qed

text \<open>
  Against C6 as stated (every server transport offers a token after the enqueue): the
  multiplexed TCP server enqueues the user connection and leaves \<^verbatim>\<open>reqNewConnChan\<close>
  empty.
\<close>

theorem mux_accept_offers_no_token:
  "Option.bind (NewTcpMuxServer False 2 8)
     (\<lambda>s. Some (buf (localChannel (fst (tcpmux_acceptLocalConn 1 True ''127.0.0.1:80''
                                         (tcpmux_connected s 9)))),
                 buf (reqNewConnChan (fst (tcpmux_acceptLocalConn 1 True ''127.0.0.1:80''
                                         (tcpmux_connected s 9)))),
                 snd (tcpmux_acceptLocalConn 1 True ''127.0.0.1:80'' (tcpmux_connected s 9))))
   = Some ([\<lparr>conn = 1, remoteAddr = ''127.0.0.1:80''\<rparr>], [], [Log Debug])"
  by (simp add: NewTcpMuxServer_def tcpmux_connected_def tcpmux_acceptLocalConn_def
      try_send_def make_chan_def)

subsection \<open>The pairing loop of the TCP server\<close>

lemma try_recv_buffered:
  "buf ch = x # xs \<Longrightarrow> sendq ch = [] \<Longrightarrow> try_recv ch = (Some x, ch\<lparr>buf := xs\<rparr>)"
  by (simp add: try_recv_def)

lemma handleLoop_failed_write:
  assumes "parked p = Some lc" and "\<not> returned p"
    and "buf (tunnelChannel (psrv p)) = t # rest" and "sendq (tunnelChannel (psrv p)) = []"
  shows "handleLoop_step (HL_tunnel False) p =
           Some (p\<lparr>psrv := (psrv p)\<lparr>tunnelChannel := (tunnelChannel (psrv p))\<lparr>buf := rest\<rparr>\<rparr>\<rparr>,
                 [Log Error, Close_conn t])"
  using assms by (simp add: try_recv_buffered)

lemma handleLoop_good_write:
  assumes "parked p = Some lc" and "\<not> returned p"
    and "buf (tunnelChannel (psrv p)) = t # rest" and "sendq (tunnelChannel (psrv p)) = []"
  shows "handleLoop_step (HL_tunnel True) p =
           Some (p\<lparr>psrv := (psrv p)\<lparr>tunnelChannel := (tunnelChannel (psrv p))\<lparr>buf := rest\<rparr>\<rparr>,
                   parked := None\<rparr>,
                 [Go_copier (conn lc) t])"
  using assms by (simp add: try_recv_buffered)

lemma handleLoop_failed_writes:
  assumes "parked p = Some lc" and "\<not> returned p"
    and "buf (tunnelChannel (psrv p)) = ts @ rest" and "sendq (tunnelChannel (psrv p)) = []"
  shows "run handleLoop_step (replicate (length ts) (HL_tunnel False) @ es) (p, acts) =
         run handleLoop_step es
           (p\<lparr>psrv := (psrv p)\<lparr>tunnelChannel := (tunnelChannel (psrv p))\<lparr>buf := rest\<rparr>\<rparr>\<rparr>,
            acts @ concat (map (\<lambda>t. [Log Error, Close_conn t]) ts))"
  using assms
proof (induction ts arbitrary: p acts)
  case Nil
  then have "rest = buf (tunnelChannel (psrv p))" by simp
  then show ?case by simp
next
  case (Cons t ts)
  let ?p1 = "p\<lparr>psrv := (psrv p)\<lparr>tunnelChannel := (tunnelChannel (psrv p))\<lparr>buf := ts @ rest\<rparr>\<rparr>\<rparr>"
  have b: "buf (tunnelChannel (psrv p)) = t # (ts @ rest)"
    using Cons.prems(3) by simp
  have step: "handleLoop_step (HL_tunnel False) p = Some (?p1, [Log Error, Close_conn t])"
    using handleLoop_failed_write [OF Cons.prems(1,2) b Cons.prems(4)] .
  have "run handleLoop_step (replicate (length (t # ts)) (HL_tunnel False) @ es) (p, acts)
        = run handleLoop_step (replicate (length ts) (HL_tunnel False) @ es)
            (?p1, acts @ [Log Error, Close_conn t])"
    by (simp add: step del: handleLoop_step.simps)
  also have "\<dots> = run handleLoop_step es
           (?p1\<lparr>psrv := (psrv ?p1)\<lparr>tunnelChannel := (tunnelChannel (psrv ?p1))\<lparr>buf := rest\<rparr>\<rparr>\<rparr>,
            (acts @ [Log Error, Close_conn t]) @ concat (map (\<lambda>t. [Log Error, Close_conn t]) ts))"
    using Cons.prems by (intro Cons.IH) simp_all
  finally show ?case by simp
qed

text \<open>
  C8: a worker that holds a parked user connection \<open>lc\<close> and meets tunnel connections
  \<open>ts\<close> on which the write of the target address fails, then a tunnel connection \<open>t\<close>
  on which it succeeds, closes every connection of \<open>ts\<close>, starts the copier for \<open>lc\<close>
  and \<open>t\<close>, and stands in the outer select again; \<^verbatim>\<open>localChannel\<close> is as it was, and
  while the user connection is parked the worker cannot take another one from it.
\<close>

theorem failed_write_keeps_user_conn:
  assumes "parked p = Some lc" and "\<not> returned p"
    and "buf (tunnelChannel (psrv p)) = ts @ t # rest" and "sendq (tunnelChannel (psrv p)) = []"
  shows "run handleLoop_step (replicate (length ts) (HL_tunnel False) @ [HL_tunnel True]) (p, []) =
           Some (p\<lparr>psrv := (psrv p)\<lparr>tunnelChannel := (tunnelChannel (psrv p))\<lparr>buf := rest\<rparr>\<rparr>,
                   parked := None\<rparr>,
                 concat (map (\<lambda>x. [Log Error, Close_conn x]) ts) @ [Go_copier (conn lc) t])
         \<and> handleLoop_step HL_local p = None
         \<and> (ts \<noteq> [] \<longrightarrow>
              map_option (\<lambda>(p', a). (parked p', localChannel (psrv p'), a))
                (handleLoop_step (HL_tunnel False) p)
              = Some (Some lc, localChannel (psrv p), [Log Error, Close_conn (hd ts)]))"
proof -
  let ?p1 = "p\<lparr>psrv := (psrv p)\<lparr>tunnelChannel := (tunnelChannel (psrv p))\<lparr>buf := t # rest\<rparr>\<rparr>\<rparr>"
  have "run handleLoop_step (replicate (length ts) (HL_tunnel False) @ [HL_tunnel True]) (p, [])
        = run handleLoop_step [HL_tunnel True]
            (?p1, [] @ concat (map (\<lambda>x. [Log Error, Close_conn x]) ts))"
    using assms by (intro handleLoop_failed_writes) simp_all
  also have "\<dots> = Some (?p1\<lparr>psrv := (psrv ?p1)\<lparr>tunnelChannel :=
                                 (tunnelChannel (psrv ?p1))\<lparr>buf := rest\<rparr>\<rparr>, parked := None\<rparr>,
                 concat (map (\<lambda>x. [Log Error, Close_conn x]) ts) @ [Go_copier (conn lc) t])"
    using assms(1,2,4)
      handleLoop_good_write [of ?p1 lc t rest]
    by (simp del: handleLoop_step.simps)
  finally have main: "run handleLoop_step (replicate (length ts) (HL_tunnel False) @ [HL_tunnel True]) (p, []) =
           Some (p\<lparr>psrv := (psrv p)\<lparr>tunnelChannel := (tunnelChannel (psrv p))\<lparr>buf := rest\<rparr>\<rparr>,
                   parked := None\<rparr>,
                 concat (map (\<lambda>x. [Log Error, Close_conn x]) ts) @ [Go_copier (conn lc) t])"
    by simp
  have nolocal: "handleLoop_step HL_local p = None"
    using assms(1) by simp
  have one: "ts \<noteq> [] \<longrightarrow>
              map_option (\<lambda>(p', a). (parked p', localChannel (psrv p'), a))
                (handleLoop_step (HL_tunnel False) p)
              = Some (Some lc, localChannel (psrv p), [Log Error, Close_conn (hd ts)])"
  proof
    assume "ts \<noteq> []"
    then obtain x xs where ts: "ts = x # xs" by (cases ts) auto
    then have b: "buf (tunnelChannel (psrv p)) = x # (xs @ t # rest)"
      using assms(3) by simp
    show "map_option (\<lambda>(p', a). (parked p', localChannel (psrv p'), a))
                (handleLoop_step (HL_tunnel False) p)
              = Some (Some lc, localChannel (psrv p), [Log Error, Close_conn (hd ts)])"
      using handleLoop_failed_write [OF assms(1,2) b assms(4)] assms(1) ts by simp
  qed
  show ?thesis using main nolocal one by blast
qed

theorem failed_write_keeps_user_conn_witness:
  "(case NewTCPServer False 4 of
      None \<Rightarrow> False
    | Some s \<Rightarrow>
        map_option (\<lambda>(p', a). (parked p', buf (tunnelChannel (psrv p')), a))
          (run handleLoop_step [HL_tunnel False, HL_tunnel False, HL_tunnel True]
             (\<lparr>psrv = (tcp_connected s 9)\<lparr>tunnelChannel := (make_chan 4)\<lparr>buf := [11, 12, 13, 14]\<rparr>\<rparr>,
               parked = Some \<lparr>conn = 1, remoteAddr = ''127.0.0.1:80''\<rparr>, returned = False\<rparr>, []))
        = Some (None, [14], [Log Error, Close_conn 11, Log Error, Close_conn 12, Go_copier 1 13]))"
proof -
  obtain s where s: "NewTCPServer False 4 = Some s"
    by (simp add: NewTCPServer_def)
  define p where "p = \<lparr>psrv = (tcp_connected s 9)\<lparr>tunnelChannel := (make_chan 4)\<lparr>buf := [11, 12, 13, 14]\<rparr>\<rparr>,
               parked = Some \<lparr>conn = 1, remoteAddr = ''127.0.0.1:80''\<rparr>, returned = False\<rparr>"
  have h: "parked p = Some \<lparr>conn = 1, remoteAddr = ''127.0.0.1:80''\<rparr>" "\<not> returned p"
    "buf (tunnelChannel (psrv p)) = [11, 12] @ 13 # [14]" "sendq (tunnelChannel (psrv p)) = []"
    by (simp_all add: p_def make_chan_def)
  from failed_write_keeps_user_conn [OF h]
  have "run handleLoop_step [HL_tunnel False, HL_tunnel False, HL_tunnel True] (p, []) =
          Some (p\<lparr>psrv := (psrv p)\<lparr>tunnelChannel := (tunnelChannel (psrv p))\<lparr>buf := [14]\<rparr>\<rparr>,
                  parked := None\<rparr>,
                [Log Error, Close_conn 11, Log Error, Close_conn 12, Go_copier 1 13])"
    by (simp del: handleLoop_step.simps run.simps add: numeral_2_eq_2)
  then show ?thesis
    using s by (simp add: p_def del: handleLoop_step.simps run.simps)
qed

subsection \<open>The stream cap of a mux session\<close>

lemma run_invariant_acts:
  assumes step: "\<And>e s acts s' new. P (s, acts) \<Longrightarrow> step e s = Some (s', new) \<Longrightarrow> P (s', acts @ new)"
    and "P (s, acts)" and "run step es (s, acts) = Some sa"
  shows "P sa"
  using assms(2,3)
proof (induction es arbitrary: s acts)
  case Nil
  then show ?case by simp
next
  case (Cons e es)
  from Cons.prems(2) obtain s1 new where
    e: "step e s = Some (s1, new)" and rest: "run step es (s1, acts @ new) = Some sa"
    by (auto split: option.splits)
  from step [OF Cons.prems(1) e] have "P (s1, acts @ new)" .
  then show ?case using rest by (rule Cons.IH)
qed

lemma try_send_outcome_full: "fst (try_send v ch) = WouldBlock \<longleftrightarrow> chan_full ch"
  by (auto simp: try_send_def chan_full_def)

lemma finalizeSession_result:
  "MuxCon (fst (finalizeSession s n)) = MuxCon s
   \<and> reqNewConnChan (fst (finalizeSession s n)) = snd (try_send () (reqNewConnChan s))
   \<and> snd (finalizeSession s n) =
       Notify_next # (if chan_full (reqNewConnChan s) then [Log Warn] else [])
         @ replicate (nat n) Await_done @ [Close_session]"
proof -
  obtain q rq where t: "try_send () (reqNewConnChan s) = (q, rq)"
    by (cases "try_send () (reqNewConnChan s)")
  have f: "q = WouldBlock \<longleftrightarrow> chan_full (reqNewConnChan s)"
    using try_send_outcome_full [of "()" "reqNewConnChan s"] t by simp
  have same: "q = WouldBlock \<Longrightarrow> rq = reqNewConnChan s"
    using t by (auto simp: try_send_def split: if_splits)
  show ?thesis
    using f same by (cases q) (simp_all add: finalizeSession_def t)
qed

lemma handleSessionError_MuxCon:
  "MuxCon (fst (fst (handleSessionError s lc n))) = MuxCon s"
proof -
  obtain q lq where b: "blocking_send lc (localChannel s) = (q, lq)"
    by (cases "blocking_send lc (localChannel s)")
  show ?thesis
    using finalizeSession_result [of "s\<lparr>localChannel := lq\<rparr>" n]
    by (cases q) (auto simp: handleSessionError_def b split: prod.splits)
qed

lemma handleSessionError_status:
  assumes "handleSessionError s lc n = ((s2, acts), stuck)"
  shows "MuxCon s2 = MuxCon s"
  using handleSessionError_MuxCon [of s lc n] assms by simp

lemma session_step_ctxDone:
  assumes "session_progress s0 (x, acts)" and "handleSession_step Sess_ctxDone x = Some (x', new)"
  shows "session_progress s0 (x', acts @ new)"
  using assms
  by (auto simp: session_progress_def split: if_splits sess_status.splits)

lemma session_step_cancelled:
  assumes "session_progress s0 (x, acts)" and "handleSession_step Sess_cancelled x = Some (x', new)"
  shows "session_progress s0 (x', acts @ new)"
  using assms
  by (auto simp: session_progress_def split: sess_status.splits)

lemma session_step_incoming:
  assumes inv: "session_progress s0 (x, acts)"
    and st: "handleSession_step (Sess_incoming open_ok send_ok) x = Some (x', new)"
  shows "session_progress s0 (x', acts @ new)"
proof -
  from st have serving: "status x = Serving"
    by (auto split: if_splits)
  from st serving obtain lc lq where rc: "try_recv (localChannel (ssrv x)) = (Some lc, lq)"
    by (auto split: prod.splits option.splits)
  let ?s1 = "(ssrv x)\<lparr>localChannel := lq\<rparr>"
  from inv serving have i: "MuxCon (ssrv x) = MuxCon s0" "0 \<le> counter x" "counter x < MuxCon s0"
    "int (opened x) = counter x" "reqNewConnChan (ssrv x) = reqNewConnChan s0"
    "length acts = opened x" "list_all is_copier acts"
    by (simp_all add: session_progress_def)
  show ?thesis
  proof (cases "open_ok \<and> send_ok")
    case False
    then have x': "ssrv x' = fst (fst (handleSessionError ?s1 lc (counter x)))
        \<and> status x' = (if snd (handleSessionError ?s1 lc (counter x)) then Stuck else Broken)
        \<and> counter x' = counter x
        \<and> (opened x' = opened x \<or> opened x' = Suc (opened x))"
      using st serving rc
      by (cases open_ok; cases send_ok)
         (auto simp: Let_def split: prod.splits)
    have "MuxCon (ssrv x') = MuxCon s0"
      using handleSessionError_MuxCon [of ?s1 lc "counter x"] x' i(1) by simp
    then show ?thesis
      using x' i by (auto simp: session_progress_def)
  next
    case True
    let ?x2 = "x\<lparr>opened := Suc (opened x), ssrv := ?s1, counter := counter x + 1\<rparr>"
    show ?thesis
    proof (cases "counter x + 1 = MuxCon s0")
      case False
      then have "x' = ?x2 \<and> new = [Go_copier (Suc (opened x)) (conn lc)]"
        using st serving rc True i(1) by (simp add: Let_def)
      then show ?thesis
        using i False serving by (simp add: session_progress_def)
    next
      case last: True
      from finalizeSession_result [of ?s1 "counter x + 1"]
      have f: "MuxCon (fst (finalizeSession ?s1 (counter x + 1))) = MuxCon s0"
        "reqNewConnChan (fst (finalizeSession ?s1 (counter x + 1))) = snd (try_send () (reqNewConnChan s0))"
        "snd (finalizeSession ?s1 (counter x + 1)) = retire_effects s0"
        using i(1,5) last by (simp_all add: retire_effects_def)
      have "x' = ?x2\<lparr>ssrv := fst (finalizeSession ?s1 (counter x + 1)), status := Retired\<rparr>
            \<and> new = Go_copier (Suc (opened x)) (conn lc) # snd (finalizeSession ?s1 (counter x + 1))"
        using st serving rc True i(1) last by (auto simp: Let_def split: prod.splits)
      then show ?thesis
        using i last f serving by (simp add: session_progress_def)
    qed
  qed
qed

lemma session_step_progress:
  assumes "session_progress s0 (x, acts)" and "handleSession_step e x = Some (x', new)"
  shows "session_progress s0 (x', acts @ new)"
  using assms session_step_ctxDone session_step_cancelled session_step_incoming
  by (cases e) blast+

text \<open>
  C7, as the code has it: with \<^verbatim>\<open>MuxCon\<close> at least 1, a session never has more than
  \<^verbatim>\<open>MuxCon\<close> streams opened on it; its counter reaches \<^verbatim>\<open>MuxCon\<close> exactly
  when it retires, and a retired session has started \<^verbatim>\<open>MuxCon\<close> copiers and then
  let \<^verbatim>\<open>handleLoop\<close> go on, offered one token on \<^verbatim>\<open>reqNewConnChan\<close> without
  blocking (dropped with a warning if that queue is full), waited \<^verbatim>\<open>MuxCon\<close> times
  for a stream to finish, and closed the session last.
\<close>

theorem session_stream_cap:
  assumes "1 \<le> MuxCon s" and "handleSession_start s = Some x0"
    and "run handleSession_step evs (x0, []) = Some (x, acts)"
  shows "int (opened x) \<le> MuxCon s \<and> counter x \<le> MuxCon s
         \<and> (counter x = MuxCon s \<longleftrightarrow> status x = Retired)
         \<and> (status x = Retired \<longrightarrow>
               int (opened x) = MuxCon s
             \<and> reqNewConnChan (ssrv x) = snd (try_send () (reqNewConnChan s))
             \<and> list_all is_copier (take (nat (MuxCon s)) acts)
             \<and> drop (nat (MuxCon s)) acts =
                 Notify_next # (if chan_full (reqNewConnChan s) then [Log Warn] else [])
                   @ replicate (nat (MuxCon s)) Await_done @ [Close_session])"
proof -
  have x0: "x0 = \<lparr>ssrv = s, counter = 0, opened = 0, status = Serving\<rparr>"
    using assms(2) by (auto simp: handleSession_start_def split: if_splits)
  have p: "session_progress s (x, acts)"
  proof (rule run_invariant_acts [where step = handleSession_step and s = x0 and acts = "[]"
        and es = evs and P = "session_progress s"])
    show "session_progress s (x0, [])"
      using assms(1) by (simp add: x0 session_progress_def)
    show "run handleSession_step evs (x0, []) = Some (x, acts)"
      by (rule assms(3))
  next
    fix e y a y' new
    assume "session_progress s (y, a)" and "handleSession_step e y = Some (y', new)"
    then show "session_progress s (y', a @ new)" by (rule session_step_progress)
  qed
  show ?thesis
  proof (cases "status x")
    case Retired
    then have r: "counter x = MuxCon s" "int (opened x) = MuxCon s"
      "reqNewConnChan (ssrv x) = snd (try_send () (reqNewConnChan s))"
      "list_all is_copier (take (opened x) acts)"
      "drop (opened x) acts = retire_effects s"
      using p by (simp_all add: session_progress_def)
    from r(2) have n: "opened x = nat (MuxCon s)" by simp
    show ?thesis
      using Retired r(1,2,3) r(4,5) [unfolded n] by (simp add: retire_effects_def)
  qed (use p assms(1) in \<open>auto simp: session_progress_def\<close>)
qed

theorem session_stream_cap_witness:
  "(case NewTcpMuxServer False 4 2 of
      None \<Rightarrow> False
    | Some s0 \<Rightarrow>
       (case handleSession_start
               (fst (tcpmux_acceptLocalConn 3 True ''127.0.0.1:80''
                 (fst (tcpmux_acceptLocalConn 2 True ''127.0.0.1:80''
                   (fst (tcpmux_acceptLocalConn 1 True ''127.0.0.1:80'' (tcpmux_connected s0 9))))))) of
          None \<Rightarrow> False
        | Some x0 \<Rightarrow>
            1 \<le> MuxCon (ssrv x0)
            \<and> map_option (\<lambda>(x, acts). (opened x, counter x, status x, buf (reqNewConnChan (ssrv x)), acts))
                (run handleSession_step [Sess_incoming True True, Sess_incoming True True] (x0, []))
              = Some (2, 2, Retired, [()],
                      [Go_copier 1 1, Go_copier 2 2, Notify_next, Await_done, Await_done,
                       Close_session])))"
proof -
  define s0 where "s0 = \<lparr>TunnelStatus = [], parentctx_done = False,
        ctx_gen = 0, ctx_done = False, cancel_set = True, controlChannel = None,
        usageMonitor = 0, restartMutex = False,
        ChannelSize = 4, MuxCon = 2,
        tunnelChannel = make_chan 4,
        localChannel = make_chan 4,
        reqNewConnChan = make_chan 4\<rparr>"
  have s0: "NewTcpMuxServer False 4 2 = Some s0"
    by (simp add: NewTcpMuxServer_def s0_def)
  define s where "s = fst (tcpmux_acceptLocalConn 3 True ''127.0.0.1:80''
                 (fst (tcpmux_acceptLocalConn 2 True ''127.0.0.1:80''
                   (fst (tcpmux_acceptLocalConn 1 True ''127.0.0.1:80'' (tcpmux_connected s0 9))))))"
  have s: "s = s0\<lparr>controlChannel := Some 9, TunnelStatus := ''Connected (TCPMux)'',
                   localChannel := (make_chan 4)\<lparr>buf :=
                     [\<lparr>conn = 1, remoteAddr = ''127.0.0.1:80''\<rparr>,
                      \<lparr>conn = 2, remoteAddr = ''127.0.0.1:80''\<rparr>,
                      \<lparr>conn = 3, remoteAddr = ''127.0.0.1:80''\<rparr>]\<rparr>\<rparr>"
    by (simp add: s_def s0_def tcpmux_connected_def tcpmux_acceptLocalConn_def try_send_def
        make_chan_def)
  have m: "MuxCon s = 2" and q: "reqNewConnChan s = make_chan 4"
    by (simp_all add: s s0_def)
  define x0 where "x0 = \<lparr>ssrv = s, counter = 0, opened = 0, status = Serving\<rparr>"
  have x0: "handleSession_start s = Some x0"
    using m by (simp add: handleSession_start_def x0_def)
  define x1 where "x1 = \<lparr>ssrv = s\<lparr>localChannel := (make_chan 4)\<lparr>buf :=
                     [\<lparr>conn = 2, remoteAddr = ''127.0.0.1:80''\<rparr>,
                      \<lparr>conn = 3, remoteAddr = ''127.0.0.1:80''\<rparr>]\<rparr>\<rparr>,
                   counter = 1, opened = 1, status = Serving\<rparr>"
  have st1: "handleSession_step (Sess_incoming True True) x0 = Some (x1, [Go_copier 1 1])"
    by (simp add: x0_def x1_def s s0_def try_recv_def make_chan_def Let_def)
  have "\<exists>x. handleSession_step (Sess_incoming True True) x1
          = Some (x, [Go_copier 2 2, Notify_next, Await_done, Await_done, Close_session])
          \<and> status x = Retired"
    by (simp add: x1_def s s0_def try_recv_def try_send_def make_chan_def Let_def
        finalizeSession_def numeral_2_eq_2)
  then obtain x where
    st2: "handleSession_step (Sess_incoming True True) x1
          = Some (x, [Go_copier 2 2, Notify_next, Await_done, Await_done, Close_session])"
    and st: "status x = Retired"
    by blast
  have r: "run handleSession_step [Sess_incoming True True, Sess_incoming True True] (x0, [])
        = Some (x, [Go_copier 1 1, Go_copier 2 2, Notify_next, Await_done, Await_done, Close_session])"
    by (simp add: st1 st2 del: handleSession_step.simps)
  have one: "1 \<le> MuxCon s" using m by simp
  from session_stream_cap [OF one x0 r] st m q
  have "opened x = 2" "counter x = 2" "buf (reqNewConnChan (ssrv x)) = [()]"
    by (simp_all add: try_send_def make_chan_def)
  then have A: "(case handleSession_start s of
          None \<Rightarrow> False
        | Some x0 \<Rightarrow>
            1 \<le> MuxCon (ssrv x0)
            \<and> map_option (\<lambda>(x, acts). (opened x, counter x, status x, buf (reqNewConnChan (ssrv x)), acts))
                (run handleSession_step [Sess_incoming True True, Sess_incoming True True] (x0, []))
              = Some (2, 2, Retired, [()],
                      [Go_copier 1 1, Go_copier 2 2, Notify_next, Await_done, Await_done,
                       Close_session]))"
    using r st m
    by (simp add: x0 del: handleSession_step.simps run.simps) (simp add: x0_def)
  show ?thesis
    by (simp only: s0 option.case) (rule A [unfolded s_def])
qed

lemma session_on_Nil [simp]:
  "session_on s [] evs = Option.bind (handleSession_start s) (\<lambda>x0. run handleSession_step evs (x0, []))"
  by (simp add: session_on_def)

lemma session_on_Cons [simp]:
  "session_on s (c # cs) evs =
     session_on (fst (tcpmux_acceptLocalConn c True ''127.0.0.1:80'' s)) cs evs"
  by (simp add: session_on_def)

text \<open>
  Against C7 as stated. With \<^verbatim>\<open>MuxCon\<close> = 0 the counter is 1 after the first stream
  and never equal to \<^verbatim>\<open>MuxCon\<close>: two user connections get two streams on one
  session, which goes on serving. And with \<^verbatim>\<open>ChannelSize\<close> = 1 and
  \<^verbatim>\<open>MuxCon\<close> = 1, a session that retires while the token of the session before it
  is still in \<^verbatim>\<open>reqNewConnChan\<close> adds no token: the queue holds one token before
  and after, and a warning is logged.
\<close>

theorem zero_MuxCon_session_never_retires:
  "Option.bind (NewTcpMuxServer False 4 0)
     (\<lambda>s0. map_option (\<lambda>(x, acts). (MuxCon (ssrv x), opened x, counter x, status x))
        (session_on (tcpmux_connected s0 9) [1, 2]
           [Sess_incoming True True, Sess_incoming True True]))
   = Some (0, 2, 2, Serving)
   \<and> Option.bind (NewTcpMuxServer False 1 1)
     (\<lambda>s0. Option.bind (session_on (tcpmux_connected s0 9) [1] [Sess_incoming True True])
        (\<lambda>(a, _). map_option
           (\<lambda>(b, acts). (status a, buf (reqNewConnChan (ssrv a)), status b,
                            buf (reqNewConnChan (ssrv b)), acts))
           (session_on (ssrv a) [2] [Sess_incoming True True])))
   = Some (Retired, [()], Retired, [()],
           [Go_copier 1 2, Notify_next, Log Warn, Await_done, Close_session])"
proof -
  have a: "Option.bind (NewTcpMuxServer False 4 0)
     (\<lambda>s0. map_option (\<lambda>(x, acts). (MuxCon (ssrv x), opened x, counter x, status x))
        (session_on (tcpmux_connected s0 9) [1, 2]
           [Sess_incoming True True, Sess_incoming True True]))
   = Some (0, 2, 2, Serving)"
    by (simp add: NewTcpMuxServer_def tcpmux_connected_def tcpmux_acceptLocalConn_def
      handleSession_start_def try_send_def try_recv_def make_chan_def Let_def)
  have b: "Option.bind (NewTcpMuxServer False 1 1)
     (\<lambda>s0. Option.bind (session_on (tcpmux_connected s0 9) [1] [Sess_incoming True True])
        (\<lambda>(a, _). map_option
           (\<lambda>(b, acts). (status a, buf (reqNewConnChan (ssrv a)), status b,
                            buf (reqNewConnChan (ssrv b)), acts))
           (session_on (ssrv a) [2] [Sess_incoming True True])))
   = Some (Retired, [()], Retired, [()],
           [Go_copier 1 2, Notify_next, Log Warn, Await_done, Close_session])"
    by (simp add: NewTcpMuxServer_def tcpmux_connected_def tcpmux_acceptLocalConn_def
      handleSession_start_def finalizeSession_def try_send_def try_recv_def make_chan_def Let_def)
  show ?thesis using a b by (rule conjI)
qed

end
